theory Spec2Isabelle
  imports Main "HOL-Library.Word"
begin

section \<open>goleveldb: the DB handle of \<^verbatim>\<open>leveldb/db.go\<close> and its options setter\<close>

text \<open>
  A shallow embedding of \<^verbatim>\<open>leveldb/db.go\<close> (Open, Recover, recoverJournal, get, Get,
  NewIterator, GetSnapshot, GetProperty, GetApproximateSizes, CompactRange, Close) and of
  the options wrapper (\<^verbatim>\<open>iOptions.SetMaxOpenFiles\<close>, \<^verbatim>\<open>iOptions.SetBlockCache\<close>).
  Go's \<^verbatim>\<open>uint64\<close> is \<open>64 word\<close>; keys and values are \<open>string\<close>; a Go result pair
  \<^verbatim>\<open>(x, err)\<close> is a pair with an \<open>error option\<close>, or a sum \<open>error + 'a\<close> where the
  source returns \<^verbatim>\<open>nil\<close> beside every error. The packages the file calls into
  (memdb, journal, the session, the table cache) are not part of the sources at hand;
  each of their operations is a definition marked as modelled from the specification.
\<close>

type_synonym u64 = "64 word"

subsection \<open>Errors\<close>

datatype error =
    ErrNotFound
  | ErrSnapshotReleased
  | ErrIterReleased
  | ErrClosed
  | ErrExist
  | ErrNotExist
  | ErrRecoverStrict
  | ErrUnknownProperty string
  | ErrInvalidProperty string
  | ErrCorrupted string
  | ErrIO string
  | ErrNotAllowed
  | ErrInvalid
  | EOF

text \<open>\<^verbatim>\<open>os.IsNotExist\<close>: true of the not-exist error only (and false of \<^verbatim>\<open>nil\<close>).\<close>

fun os_IsNotExist :: "error option \<Rightarrow> bool" where
  "os_IsNotExist (Some ErrNotExist) = True"
| "os_IsNotExist _ = False"

subsection \<open>The LRU cache\<close>

text \<open>
  Modelled from the spec: the cache of open table readers of section 4.5 (package cache is
  not among the sources): a capacity and the cached handles, most recently used first.
  Section 5: "Runtime resizes of this cap purge the table cache", so \<open>SetCapacity\<close>
  records the new capacity and drops every handle; \<open>Purge\<close> drops every handle and leaves
  the capacity.
\<close>

record lruCache =
  capacity :: int
  cached :: "u64 list"

definition cache_Purge :: "lruCache \<Rightarrow> lruCache" where
  "cache_Purge c = c\<lparr>cached := []\<rparr>"

definition cache_SetCapacity :: "lruCache \<Rightarrow> int \<Rightarrow> lruCache" where
  "cache_SetCapacity c n = cache_Purge (c\<lparr>capacity := n\<rparr>)"

subsection \<open>Options\<close>

datatype OptionsFlag = OFCreateIfMissing | OFErrorIfExist | OFStrict

datatype ReadOptionsFlag = RFVerifyChecksums | RFDontFillCache | RFDontCopyBuffer

record Options =
  Flag :: "OptionsFlag list"
  WriteBuffer :: nat
  MaxOpenFiles :: int
  BlockCache :: "lruCache option"

record ReadOptions =
  RFlag :: "ReadOptionsFlag list"

definition HasFlag :: "Options \<Rightarrow> OptionsFlag \<Rightarrow> bool" where
  "HasFlag o' f = (f \<in> set (Flag o'))"

definition RHasFlag :: "ReadOptions \<Rightarrow> ReadOptionsFlag \<Rightarrow> bool" where
  "RHasFlag ro f = (f \<in> set (RFlag ro))"

definition GetWriteBuffer :: "Options \<Rightarrow> nat" where
  "GetWriteBuffer o' = WriteBuffer o'"

subsection \<open>Internal keys\<close>

text \<open>
  Modelled from the spec: the internal key of section 3 and 4.1 (\<^verbatim>\<open>key.go\<close> is not among
  the sources). An internal key is the user key followed by eight bytes packing the
  sequence number and a kind byte; the typed key below is that triple, so a key too short
  to hold the trailer does not arise, and parsing fails only on an unknown kind byte.
  The kinds are numbered in comparator order: Deletion below Value, and Seek the largest
  kind, so that a Seek key sorts before every real key of the same user key and sequence.
\<close>

datatype iKey = IKey (ukey: string) (seqnum: u64) (kind: "8 word")

type_synonym vType = "8 word"

definition tDel :: vType where "tDel = 0"
definition tVal :: vType where "tVal = 1"
definition tSeek :: vType where "tSeek = tVal"

definition kMaxSeq :: u64 where "kMaxSeq = 2 ^ 56 - 1"

definition newIKey :: "string \<Rightarrow> u64 \<Rightarrow> vType \<Rightarrow> iKey" where
  "newIKey uk sq t = IKey uk sq t"

definition parseIkey :: "iKey \<Rightarrow> string \<times> u64 \<times> vType \<times> bool" where
  "parseIkey k = (if kind k \<le> tVal then (ukey k, seqnum k, kind k, True) else ([], 0, 0, False))"

definition parseNum :: "iKey \<Rightarrow> u64 \<times> vType \<times> bool" where
  "parseNum k = (if kind k \<le> tVal then (seqnum k, kind k, True) else (0, 0, False))"

text \<open>The default user comparator: bytewise lexicographic order, as a three-way result.\<close>

fun bytes_Compare :: "string \<Rightarrow> string \<Rightarrow> int" where
  "bytes_Compare [] [] = 0"
| "bytes_Compare [] (y # ys) = - 1"
| "bytes_Compare (x # xs) [] = 1"
| "bytes_Compare (x # xs) (y # ys) =
     (if (of_char x :: nat) < of_char y then - 1
      else if (of_char y :: nat) < of_char x then 1
      else bytes_Compare xs ys)"

text \<open>
  Modelled from the spec: the internal comparator of section 3: user key ascending by the
  user comparator, then sequence descending, then kind descending.
\<close>

definition iCompare :: "(string \<Rightarrow> string \<Rightarrow> int) \<Rightarrow> iKey \<Rightarrow> iKey \<Rightarrow> int" where
  "iCompare ucmp a b =
     (let x = ucmp (ukey a) (ukey b) in
      if x \<noteq> 0 then x
      else if seqnum b < seqnum a then - 1
      else if seqnum a < seqnum b then 1
      else if kind b < kind a then - 1
      else if kind a < kind b then 1
      else 0)"

subsection \<open>Memtable\<close>

text \<open>
  Modelled from the spec: the memtable of section 4.2 (package memdb is not among the
  sources): the entries in internal-key order; \<open>Find\<close> is \<^verbatim>\<open>find_ge\<close>, the first entry
  whose key is at or after the probe, and the not-found error when there is none.
  \<open>Size\<close> is the sum of the encoded key and value lengths (section 3).
\<close>

type_synonym memdb = "(iKey \<times> string) list"

fun memdb_Find :: "(string \<Rightarrow> string \<Rightarrow> int) \<Rightarrow> memdb \<Rightarrow> iKey \<Rightarrow> error + (iKey \<times> string)" where
  "memdb_Find ucmp [] ik = Inl ErrNotFound"
| "memdb_Find ucmp ((k, v) # m) ik =
     (if iCompare ucmp k ik < 0 then memdb_Find ucmp m ik else Inr (k, v))"

fun memdb_Put :: "(string \<Rightarrow> string \<Rightarrow> int) \<Rightarrow> memdb \<Rightarrow> iKey \<Rightarrow> string \<Rightarrow> memdb" where
  "memdb_Put ucmp [] ik v = [(ik, v)]"
| "memdb_Put ucmp ((k, w) # m) ik v =
     (if iCompare ucmp k ik < 0 then (k, w) # memdb_Put ucmp m ik v
      else if iCompare ucmp k ik = 0 then (ik, v) # m
      else (ik, v) # (k, w) # m)"

definition memdb_Len :: "memdb \<Rightarrow> nat" where
  "memdb_Len m = length m"

definition memdb_Size :: "memdb \<Rightarrow> nat" where
  "memdb_Size m = sum_list (map (\<lambda>(k, v). length (ukey k) + 8 + length v) m)"

subsection \<open>Storage: files, tables, journals\<close>

text \<open>
  Modelled from the spec: the storage interface of section 6 (package storage is not among
  the sources): a namespace of typed, numbered files. A \<open>File\<close> is the handle the source
  holds (\<^verbatim>\<open>storage.File\<close>: a number and a type); the storage maps handles to contents.
  A table file holds its entries in internal-key order; a journal file holds its
  blocks; a manifest holds its version edits, or cannot be read. Each table and
  the storage itself list the operations that fail on them and the error each returns, so
  that every \<^verbatim>\<open>err != nil\<close> branch of the source can be taken.
\<close>

datatype FileType = TypeManifest | TypeJournal | TypeTable | TypeTemp

record File =
  Num :: u64
  Type :: FileType

datatype tableOp = OpSize | OpFirst | OpLast | OpGet

record tableData =
  t_fault :: "(tableOp \<times> error) list"
  t_bytes :: u64
  t_entries :: "(iKey \<times> string) list"

text \<open>
  Modelled from the spec: the batch of section 4.4 (\<^verbatim>\<open>batch.go\<close> is not among the
  sources): a base sequence number and the operations in the order appended; \<open>BadOp\<close> is
  an operation whose bytes do not decode, found only when the batch is replayed. The
  encoding is kept at the grain the replay needs: the header, which carries the base
  sequence, then one unit for each operation.
\<close>

datatype batchOp = Op vType string string | BadOp

record Batch =
  b_seq :: u64
  b_ops :: "batchOp list"

datatype bunit = Hdr u64 | Unit batchOp

type_synonym bytes = "bunit list"

text \<open>
  Modelled from the spec: the journal file of section 4.3 (package journal is not among
  the sources): a sequence of physical blocks, each the sequence of the fragments that lie
  in it. A fragment has its type tag, its payload, and its checksum, of which only
  whether it matches is kept. A record is one \<open>Full\<close> fragment, or a \<open>First\<close>, any number
  of \<open>Middle\<close> and a \<open>Last\<close> fragment, which may lie in successive blocks.
\<close>

datatype chunkType = FullChunk | FirstChunk | MiddleChunk | LastChunk

record chunk =
  c_type :: chunkType
  c_sound :: bool
  c_data :: bytes

type_synonym block = "chunk list"

text \<open>
  Modelled from the spec: the version edit of section 3 (\<^verbatim>\<open>session_record.go\<close> is not
  among the sources): added and deleted tables by level, and the counters an edit may set.
\<close>

record addedTable =
  a_level :: nat
  a_num :: u64
  a_size :: u64
  a_min :: "iKey option"
  a_max :: "iKey option"

record sessionRecord =
  addedTables :: "addedTable list"
  deletedTables :: "(nat \<times> u64) list"
  r_nextNum :: "u64 option"
  r_seq :: "u64 option"
  r_journalNum :: "u64 option"
  r_prevJournalNum :: "u64 option"

datatype fileBody =
    TableBody tableData
  | JournalBody "error option" "block list"
  | ManifestBody "sessionRecord list option"
  | TempBody

datatype storOp = OpLock | OpCreateManifest | OpWriteManifest | OpCreateJournal | OpCreateTable

record Storage =
  files :: "(File \<times> fileBody) list"
  s_fault :: "(storOp \<times> error) list"
  current :: "u64 option"

text \<open>\<^verbatim>\<open>files.sort\<close>: the handles in ascending order of their numbers.\<close>

definition files_sort :: "File list \<Rightarrow> File list" where
  "files_sort ff = sort_key (\<lambda>f. unat (Num f)) ff"

datatype TypeSel = TypeAll | TypeOnly FileType

definition stor_getFiles :: "Storage \<Rightarrow> TypeSel \<Rightarrow> File list" where
  "stor_getFiles p sel =
     (case sel of
        TypeAll \<Rightarrow> map fst (files p)
      | TypeOnly t \<Rightarrow> filter (\<lambda>f. Type f = t) (map fst (files p)))"

definition file_Size :: "Storage \<Rightarrow> File \<Rightarrow> error + u64" where
  "file_Size p f =
     (case map_of (files p) f of
        None \<Rightarrow> Inl ErrNotExist
      | Some (TableBody td) \<Rightarrow>
          (case map_of (t_fault td) OpSize of Some e \<Rightarrow> Inl e | None \<Rightarrow> Inr (t_bytes td))
      | Some _ \<Rightarrow> Inr 0)"

definition file_Remove :: "Storage \<Rightarrow> File \<Rightarrow> Storage" where
  "file_Remove p f = p\<lparr>files := filter (\<lambda>(g, b). g \<noteq> f) (files p)\<rparr>"

definition file_Create :: "Storage \<Rightarrow> File \<Rightarrow> fileBody \<Rightarrow> Storage" where
  "file_Create p f b = p\<lparr>files := filter (\<lambda>(g, c). g \<noteq> f) (files p) @ [(f, b)]\<rparr>"

subsection \<open>Table iterators\<close>

text \<open>
  Modelled from the spec: the table iterator of sections 4.5 and 4.9
  (\<^verbatim>\<open>tops.newIterator\<close>; \<^verbatim>\<open>table.go\<close> is not among the sources). \<open>First\<close> and \<open>Last\<close>
  give the key they stop at, or report no entry, with the error the read ran into if any.
  \<open>Next\<close> from a fresh iterator walks every entry in order.
\<close>

datatype tIter = TIter "(tableOp \<times> error) list" "(iKey \<times> string) list"

record tFile =
  t_file :: File
  t_size :: u64
  t_min :: "iKey option"
  t_max :: "iKey option"
  t_seekLeft :: nat

definition newTFile :: "File \<Rightarrow> u64 \<Rightarrow> iKey option \<Rightarrow> iKey option \<Rightarrow> tFile" where
  "newTFile f sz mn mx =
     \<lparr>t_file = f, t_size = sz, t_min = mn, t_max = mx, t_seekLeft = 0\<rparr>"

definition tops_newIterator :: "Storage \<Rightarrow> tFile \<Rightarrow> tIter" where
  "tops_newIterator p t =
     (case map_of (files p) (t_file t) of
        Some (TableBody td) \<Rightarrow> TIter (t_fault td) (t_entries td)
      | _ \<Rightarrow> TIter [(OpFirst, ErrNotExist), (OpLast, ErrNotExist), (OpGet, ErrNotExist)] [])"

fun iter_First :: "tIter \<Rightarrow> bool \<times> iKey option \<times> error option" where
  "iter_First (TIter fl es) =
     (case map_of fl OpFirst of
        Some e \<Rightarrow> (False, None, Some e)
      | None \<Rightarrow> (case es of [] \<Rightarrow> (False, None, None) | (k, v) # _ \<Rightarrow> (True, Some k, None)))"

fun iter_Last :: "tIter \<Rightarrow> bool \<times> iKey option \<times> error option" where
  "iter_Last (TIter fl es) =
     (case map_of fl OpLast of
        Some e \<Rightarrow> (False, None, Some e)
      | None \<Rightarrow> (if es = [] then (False, None, None) else (True, Some (fst (last es)), None)))"

fun iter_keys :: "tIter \<Rightarrow> iKey list" where
  "iter_keys (TIter fl es) = map fst es"

subsection \<open>Versions\<close>

record version =
  tables :: "tFile list list"

text \<open>The tables of a level; a level the version does not hold has none.\<close>

definition tables_at :: "version \<Rightarrow> nat \<Rightarrow> tFile list" where
  "tables_at v level = (if level < length (tables v) then tables v ! level else [])"

definition tLen :: "version \<Rightarrow> nat \<Rightarrow> nat" where
  "tLen v level = length (tables_at v level)"

text \<open>
  Modelled from the spec: the table access layer of section 4.5, \<^verbatim>\<open>reader.get\<close>: the first
  entry of the table at or after the probe, or the error the read runs into.
\<close>

definition tops_get :: "Storage \<Rightarrow> (string \<Rightarrow> string \<Rightarrow> int) \<Rightarrow> tFile \<Rightarrow> iKey \<Rightarrow> error + (iKey \<times> string)" where
  "tops_get p ucmp t ik =
     (case map_of (files p) (t_file t) of
        Some (TableBody td) \<Rightarrow>
          (case map_of (t_fault td) OpGet of
             Some e \<Rightarrow> Inl e
           | None \<Rightarrow> memdb_Find ucmp (t_entries td) ik)
      | _ \<Rightarrow> Inl ErrNotExist)"

text \<open>
  Modelled from the spec: \<^verbatim>\<open>version.get\<close> of section 4.6 (\<^verbatim>\<open>version.go\<close> is not among
  the sources). Level 0 is searched newest first over the tables whose range holds the
  user key; each deeper level offers at most one table. The search stops at the first
  entry of the user key: its value, or not-found for a deletion. The flag tells that the
  first table of a level above 0 consulted without an answer has used up its seeks.
\<close>

definition covers :: "(string \<Rightarrow> string \<Rightarrow> int) \<Rightarrow> string \<Rightarrow> tFile \<Rightarrow> bool" where
  "covers ucmp key t =
     (case (t_min t, t_max t) of
        (Some mn, Some mx) \<Rightarrow> ucmp (ukey mn) key \<le> 0 \<and> ucmp key (ukey mx) \<le> 0
      | _ \<Rightarrow> False)"

definition level0_candidates :: "(string \<Rightarrow> string \<Rightarrow> int) \<Rightarrow> string \<Rightarrow> tFile list \<Rightarrow> tFile list" where
  "level0_candidates ucmp key ts =
     filter (covers ucmp key) (rev (sort_key (\<lambda>t. unat (Num (t_file t))) ts))"

fun level_candidate :: "(string \<Rightarrow> string \<Rightarrow> int) \<Rightarrow> string \<Rightarrow> tFile list \<Rightarrow> tFile list" where
  "level_candidate ucmp key [] = []"
| "level_candidate ucmp key (t # ts) =
     (case t_max t of
        Some mx \<Rightarrow>
          (if ucmp key (ukey mx) \<le> 0 then (if covers ucmp key t then [t] else [])
           else level_candidate ucmp key ts)
      | None \<Rightarrow> level_candidate ucmp key ts)"

fun candidates :: "(string \<Rightarrow> string \<Rightarrow> int) \<Rightarrow> string \<Rightarrow> nat \<Rightarrow> tFile list list \<Rightarrow> (nat \<times> tFile) list" where
  "candidates ucmp key level [] = []"
| "candidates ucmp key level (ts # tss) =
     map (Pair level)
       (if level = 0 then level0_candidates ucmp key ts else level_candidate ucmp key ts)
     @ candidates ucmp key (Suc level) tss"

fun search_tables ::
  "Storage \<Rightarrow> (string \<Rightarrow> string \<Rightarrow> int) \<Rightarrow> string \<Rightarrow> iKey \<Rightarrow> (nat \<times> tFile) list \<Rightarrow> (nat \<times> tFile) list
     \<Rightarrow> (string \<times> error option) \<times> (nat \<times> tFile) list" where
  "search_tables p ucmp key ik missed [] = (([], Some ErrNotFound), missed)"
| "search_tables p ucmp key ik missed ((l, t) # ts) =
     (case tops_get p ucmp t ik of
        Inl e \<Rightarrow>
          (if e = ErrNotFound then search_tables p ucmp key ik (missed @ [(l, t)]) ts
           else (([], Some e), missed))
      | Inr (rkey, v) \<Rightarrow>
          (case parseIkey rkey of (uk, sq, tp, ok) \<Rightarrow>
             if ok \<and> ucmp uk key = 0
             then (if tp = tDel then (([], Some ErrNotFound), missed) else ((v, None), missed))
             else search_tables p ucmp key ik (missed @ [(l, t)]) ts))"

definition version_get :: "Storage \<Rightarrow> (string \<Rightarrow> string \<Rightarrow> int) \<Rightarrow> version \<Rightarrow> iKey \<Rightarrow> string \<times> bool \<times> error option" where
  "version_get p ucmp v ik =
     (case search_tables p ucmp (ukey ik) ik [] (candidates ucmp (ukey ik) 0 (tables v)) of
        ((val, err), missed) \<Rightarrow>
          (val,
           (case filter (\<lambda>(l, t). 0 < l) missed of
              [] \<Rightarrow> False
            | (l, t) # _ \<Rightarrow> t_seekLeft t \<le> 1),
           err))"

subsection \<open>Session\<close>

text \<open>
  Modelled from the spec: the session of sections 2 and 4.6 (\<^verbatim>\<open>session.go\<close> is not among
  the sources): the storage, the options, the comparator, the next file number, the
  journal numbers, the last sequence, the current version, the number of the manifest
  being written and the cache of open tables. \<open>dropped\<close> is the drop sink of section 4.3:
  what the journal readers have handed to their \<^verbatim>\<open>dropper{s, file}\<close>, the file and the
  reason of each notification, oldest first.
\<close>

record session =
  stor :: Storage
  s_o :: Options
  cmp :: "string \<Rightarrow> string \<Rightarrow> int"
  stFileNum :: u64
  stJournalNum :: u64
  stPrevJournalNum :: u64
  stSeq :: u64
  s_version :: version
  manifest :: "u64 option"
  tops_cache :: lruCache
  dropped :: "(File \<times> string) list"

definition newSession :: "Storage \<Rightarrow> Options \<Rightarrow> error + session" where
  "newSession p o' =
     (case map_of (s_fault p) OpLock of
        Some e \<Rightarrow> Inl e
      | None \<Rightarrow>
          Inr \<lparr>stor = p, s_o = o', cmp = bytes_Compare, stFileNum = 0, stJournalNum = 0,
               stPrevJournalNum = 0, stSeq = 0, s_version = \<lparr>tables = []\<rparr>, manifest = None,
               tops_cache = \<lparr>capacity = MaxOpenFiles o', cached = []\<rparr>,
               dropped = []\<rparr>)"

definition s_getFiles :: "session \<Rightarrow> TypeSel \<Rightarrow> File list" where
  "s_getFiles s sel = stor_getFiles (stor s) sel"

definition allocFileNum :: "session \<Rightarrow> u64 \<times> session" where
  "allocFileNum s = (stFileNum s, s\<lparr>stFileNum := stFileNum s + 1\<rparr>)"

definition markFileNum :: "session \<Rightarrow> u64 \<Rightarrow> session" where
  "markFileNum s num = (if stFileNum s \<le> num then s\<lparr>stFileNum := num + 1\<rparr> else s)"

text \<open>Applying a version edit: section 3, "applying a version edit to a version".\<close>

definition table_of_added :: "addedTable \<Rightarrow> tFile" where
  "table_of_added a =
     newTFile \<lparr>Num = a_num a, Type = TypeTable\<rparr> (a_size a) (a_min a) (a_max a)"

definition add_table :: "version \<Rightarrow> addedTable \<Rightarrow> version" where
  "add_table v a =
     (let tss = tables v @ replicate (Suc (a_level a) - length (tables v)) []
      in v\<lparr>tables := tss[a_level a := tss ! a_level a @ [table_of_added a]]\<rparr>)"

definition delete_tables :: "version \<Rightarrow> (nat \<times> u64) list \<Rightarrow> version" where
  "delete_tables v del =
     v\<lparr>tables := map (\<lambda>(l, ts). filter (\<lambda>t. (l, Num (t_file t)) \<notin> set del) ts)
                    (zip [0 ..< length (tables v)] (tables v))\<rparr>"

definition spawn :: "version \<Rightarrow> sessionRecord \<Rightarrow> version" where
  "spawn v r = foldl add_table (delete_tables v (deletedTables r)) (addedTables r)"

definition recordCommited :: "session \<Rightarrow> sessionRecord \<Rightarrow> session" where
  "recordCommited s r =
     s\<lparr>stJournalNum := (case r_journalNum r of Some n \<Rightarrow> n | None \<Rightarrow> stJournalNum s),
       stPrevJournalNum := (case r_prevJournalNum r of Some n \<Rightarrow> n | None \<Rightarrow> stPrevJournalNum s),
       stSeq := (case r_seq r of Some n \<Rightarrow> n | None \<Rightarrow> stSeq s),
       s_version := spawn (s_version s) r\<rparr>"

definition replay_edit :: "session \<Rightarrow> sessionRecord \<Rightarrow> session" where
  "replay_edit s r =
     (recordCommited s r)\<lparr>stFileNum := (case r_nextNum r of Some n \<Rightarrow> n | None \<Rightarrow> stFileNum s)\<rparr>"

definition emptyRecord :: sessionRecord where
  "emptyRecord = \<lparr>addedTables = [], deletedTables = [], r_nextNum = None, r_seq = None,
                  r_journalNum = None, r_prevJournalNum = None\<rparr>"

definition addTableFile :: "sessionRecord \<Rightarrow> nat \<Rightarrow> tFile \<Rightarrow> sessionRecord" where
  "addTableFile r level t =
     r\<lparr>addedTables := addedTables r @
         [\<lparr>a_level = level, a_num = Num (t_file t), a_size = t_size t,
           a_min = t_min t, a_max = t_max t\<rparr>]\<rparr>"

definition setSeq :: "sessionRecord \<Rightarrow> u64 \<Rightarrow> sessionRecord" where
  "setSeq r sq = r\<lparr>r_seq := Some sq\<rparr>"

text \<open>
  Modelled from the spec: \<^verbatim>\<open>session.recover\<close> (section 3, "on open, the current manifest
  is replayed"; section 6, CURRENT names the current manifest). With no CURRENT there is
  no database: the error is the not-exist one.
\<close>

definition session_recover :: "session \<Rightarrow> error + session" where
  "session_recover s =
     (case current (stor s) of
        None \<Rightarrow> Inl ErrNotExist
      | Some n \<Rightarrow>
          (case map_of (files (stor s)) \<lparr>Num = n, Type = TypeManifest\<rparr> of
             Some (ManifestBody (Some edits)) \<Rightarrow> Inr (foldl replay_edit s edits)
           | _ \<Rightarrow> Inl (ErrCorrupted ''manifest'')))"

definition snapshotRecord :: "session \<Rightarrow> sessionRecord" where
  "snapshotRecord s =
     \<lparr>addedTables =
        concat (map (\<lambda>(l, ts). map (\<lambda>t. \<lparr>a_level = l, a_num = Num (t_file t), a_size = t_size t,
                                         a_min = t_min t, a_max = t_max t\<rparr>) ts)
                    (zip [0 ..< length (tables (s_version s))] (tables (s_version s)))),
      deletedTables = [], r_nextNum = Some (stFileNum s), r_seq = Some (stSeq s),
      r_journalNum = Some (stJournalNum s), r_prevJournalNum = Some (stPrevJournalNum s)\<rparr>"

text \<open>
  Modelled from the spec: a new manifest (section 6: \<^verbatim>\<open>MANIFEST-<num>\<close>, and CURRENT naming
  it). It takes the next file number and starts with the session's state as one edit.
\<close>

definition newManifest :: "session \<Rightarrow> error + session" where
  "newManifest s =
     (case map_of (s_fault (stor s)) OpCreateManifest of
        Some e \<Rightarrow> Inl e
      | None \<Rightarrow>
          (case allocFileNum s of (num, s1) \<Rightarrow>
             let f = \<lparr>Num = num, Type = TypeManifest\<rparr>
             in Inr (s1\<lparr>stor := (file_Create (stor s1) f (ManifestBody (Some [snapshotRecord s1])))
                                 \<lparr>current := Some num\<rparr>,
                        manifest := Some num\<rparr>)))"

definition session_create :: "session \<Rightarrow> error + session" where
  "session_create s = newManifest s"

text \<open>
  Modelled from the spec: \<^verbatim>\<open>session.commit\<close> (section 4.6): the edit is written to the
  manifest, then the next version becomes current; if the write fails the session is
  unchanged. A session with no manifest open starts a new one.
\<close>

definition flushManifest :: "session \<Rightarrow> sessionRecord \<Rightarrow> error + session" where
  "flushManifest s r =
     (case map_of (s_fault (stor s)) OpWriteManifest of
        Some e \<Rightarrow> Inl e
      | None \<Rightarrow>
          (case manifest s of
             None \<Rightarrow> Inl (ErrIO ''no manifest'')
           | Some num \<Rightarrow>
               let f = \<lparr>Num = num, Type = TypeManifest\<rparr>;
                   r' = r\<lparr>r_nextNum := Some (stFileNum s)\<rparr>;
                   old = (case map_of (files (stor s)) f of
                            Some (ManifestBody (Some edits)) \<Rightarrow> edits | _ \<Rightarrow> [])
               in Inr (s\<lparr>stor := file_Create (stor s) f (ManifestBody (Some (old @ [r'])))\<rparr>)))"

definition session_commit :: "session \<Rightarrow> sessionRecord \<Rightarrow> error + session" where
  "session_commit s r =
     (case manifest s of
        None \<Rightarrow>
          (case newManifest (recordCommited s r) of
             Inl e \<Rightarrow> Inl e
           | Inr s' \<Rightarrow> Inr s')
      | Some num \<Rightarrow>
          (case flushManifest s r of
             Inl e \<Rightarrow> Inl e
           | Inr s' \<Rightarrow> Inr (recordCommited s' r)))"

subsection \<open>The DB handle\<close>

text \<open>
  The \<^verbatim>\<open>DB\<close> struct. The channels and the goroutines behind them are left out; what a
  call can observe of them is kept as data: the compaction error waiting on
  \<^verbatim>\<open>compErrCh\<close>, the closed flag, and the closer with the result of its \<^verbatim>\<open>Close\<close>.
\<close>

record cStats =
  c_duration :: int
  c_read :: u64
  c_write :: u64

record DB =
  d_seq :: u64
  d_s :: session
  d_mem :: memdb
  d_frozenMem :: "memdb option"
  d_journalFile :: "File option"
  d_frozenJournalFile :: "File option"
  d_frozenSeq :: u64
  d_compErr :: "error option"
  d_compStats :: "cStats list"
  d_snaps :: "u64 list"
  d_closed :: "32 word"
  d_closer :: "error option option"

subsection \<open>Batches and the journal reader\<close>

definition batch_len :: "Batch \<Rightarrow> nat" where
  "batch_len b = length (b_ops b)"

text \<open>
  Modelled from the spec: \<^verbatim>\<open>batch.decode\<close> (section 4.4): the bytes of a batch start
  with its header; bytes without one are refused.
\<close>

fun unit_op :: "bunit \<Rightarrow> batchOp" where
  "unit_op (Unit op) = op"
| "unit_op (Hdr sq) = BadOp"

fun batch_decode :: "bytes \<Rightarrow> error + Batch" where
  "batch_decode (Hdr sq # us) = Inr \<lparr>b_seq = sq, b_ops = map unit_op us\<rparr>"
| "batch_decode us = Inl (ErrCorrupted ''batch too short'')"

definition batch_encode :: "Batch \<Rightarrow> bytes" where
  "batch_encode b = Hdr (b_seq b) # map Unit (b_ops b)"

text \<open>
  Modelled from the spec: \<^verbatim>\<open>batch.memReplay\<close> (section 4.4): the operations are put into
  the memtable in the order appended, the i-th under sequence \<open>base + i\<close>.
\<close>

fun replay_ops :: "(string \<Rightarrow> string \<Rightarrow> int) \<Rightarrow> u64 \<Rightarrow> batchOp list \<Rightarrow> memdb \<Rightarrow> error + memdb" where
  "replay_ops ucmp sq [] m = Inr m"
| "replay_ops ucmp sq (BadOp # ops) m = Inl (ErrCorrupted ''batch record'')"
| "replay_ops ucmp sq (Op t k v # ops) m =
     replay_ops ucmp (sq + 1) ops (memdb_Put ucmp m (newIKey k sq t) v)"

definition memReplay :: "(string \<Rightarrow> string \<Rightarrow> int) \<Rightarrow> Batch \<Rightarrow> memdb \<Rightarrow> error + memdb" where
  "memReplay ucmp b m = replay_ops ucmp (b_seq b) (b_ops b) m"

text \<open>
  Modelled from the spec: the journal reader of section 4.3 (package journal is not among
  the sources). The state of a reader is what it has not read yet: the rest of the block
  it is in, then the blocks behind it. Each operation returns, first, the drop
  notifications it emits.

  \<open>Next\<close> goes to the start of the next record and returns \<open>EOF\<close> when there is none. On
  a fragment whose checksum does not match, a strict reader returns the corruption; a
  reader that is not strict emits a drop notification and resynchronises at the next
  block boundary, so the rest of the block is lost. A \<open>Middle\<close> or \<open>Last\<close> fragment where
  a record should start is the rest of a record whose beginning is lost (scenario 5 of
  section 8: "its successor fragments are dropped"): it is skipped, and a strict reader,
  which never resynchronises, returns an error for it.
\<close>

definition starts_record :: "chunk \<Rightarrow> bool" where
  "starts_record c = (c_type c = FullChunk \<or> c_type c = FirstChunk)"

fun jr_Next :: "bool \<Rightarrow> block list \<Rightarrow> string list \<times> (error + block list)" where
  "jr_Next strict [] = ([], Inl EOF)"
| "jr_Next strict ([] # bs) = jr_Next strict bs"
| "jr_Next strict ((c # cs) # bs) =
     (if \<not> c_sound c then
        (if strict then ([], Inl (ErrCorrupted ''checksum mismatch''))
         else (case jr_Next strict bs of (ds, r) \<Rightarrow> (''checksum mismatch'' # ds, r)))
      else if starts_record c then ([], Inr ((c # cs) # bs))
      else if strict then ([], Inl (ErrCorrupted ''orphan chunk''))
      else jr_Next strict (cs # bs))"

text \<open>
  Modelled from the spec: reading the body of the record the reader is at
  (\<^verbatim>\<open>buf.ReadFrom(r)\<close>): the payloads of its fragments, up to its \<open>Last\<close> one. The read
  fails when the journal ends before the record does, when a fragment's checksum does not
  match (a reader that is not strict then drops the rest of that block and reports it),
  and when another record starts before this one has ended, which is left to be read
  next. The result is the notifications, the bytes or the error, and the reader's state.
\<close>

fun read_rest :: "bool \<Rightarrow> block list \<Rightarrow> string list \<times> (error + bytes) \<times> block list" where
  "read_rest strict [] = ([], Inl (ErrIO ''unexpected EOF''), [])"
| "read_rest strict ([] # bs) = read_rest strict bs"
| "read_rest strict ((c # cs) # bs) =
     (if \<not> c_sound c then
        (if strict then ([], Inl (ErrCorrupted ''checksum mismatch''), (c # cs) # bs)
         else ([''checksum mismatch''], Inl (ErrCorrupted ''checksum mismatch''), bs))
      else if c_type c = LastChunk then ([], Inr (c_data c), cs # bs)
      else if c_type c = MiddleChunk then
        (case read_rest strict (cs # bs) of
           (ds, Inr data, bs') \<Rightarrow> (ds, Inr (c_data c @ data), bs')
         | (ds, Inl err, bs') \<Rightarrow> (ds, Inl err, bs'))
      else ([], Inl (ErrCorrupted ''missing chunk''), (c # cs) # bs))"

fun buf_ReadFrom :: "bool \<Rightarrow> block list \<Rightarrow> string list \<times> (error + bytes) \<times> block list" where
  "buf_ReadFrom strict ((c # cs) # bs) =
     (if c_type c = FullChunk then ([], Inr (c_data c), cs # bs)
      else (case read_rest strict (cs # bs) of
              (ds, Inr data, bs') \<Rightarrow> (ds, Inr (c_data c @ data), bs')
            | (ds, Inl err, bs') \<Rightarrow> (ds, Inl err, bs')))"
| "buf_ReadFrom strict bs = ([], Inl (ErrIO ''stale reader''), bs)"

text \<open>\<^verbatim>\<open>dropper{s, file}\<close>: the notifications of a reader go to the session, with the file.\<close>

definition drop_to :: "File \<Rightarrow> string list \<Rightarrow> DB \<Rightarrow> DB" where
  "drop_to file ds d =
     d\<lparr>d_s := (d_s d)\<lparr>dropped := dropped (d_s d) @ map (Pair file) ds\<rparr>\<rparr>"

definition file_Open :: "Storage \<Rightarrow> File \<Rightarrow> error + block list" where
  "file_Open p f =
     (case map_of (files p) f of
        Some (JournalBody None bs) \<Rightarrow> Inr bs
      | Some (JournalBody (Some e) bs) \<Rightarrow> Inl e
      | Some _ \<Rightarrow> Inr []
      | None \<Rightarrow> Inl ErrNotExist)"

subsection \<open>Memtable flush at recovery\<close>

text \<open>
  Modelled from the spec: the flush of section 4.8 as recovery uses it (\<^verbatim>\<open>cMem\<close>;
  \<^verbatim>\<open>db_compaction.go\<close> is not among the sources): \<open>flush\<close> drains a memtable into one new
  table of the given level and notes it in the pending edit; \<open>commit\<close> sets the journal
  number and the sequence in the edit and commits it to the session.
\<close>

definition cm_flush :: "session \<Rightarrow> sessionRecord \<Rightarrow> memdb \<Rightarrow> nat \<Rightarrow> error + (session \<times> sessionRecord)" where
  "cm_flush s r m level =
     (case map_of (s_fault (stor s)) OpCreateTable of
        Some e \<Rightarrow> Inl e
      | None \<Rightarrow>
          (case allocFileNum s of (num, s1) \<Rightarrow>
             let f = \<lparr>Num = num, Type = TypeTable\<rparr>;
                 td = \<lparr>t_fault = [], t_bytes = of_nat (memdb_Size m), t_entries = m\<rparr>;
                 t = newTFile f (t_bytes td)
                       (case m of [] \<Rightarrow> None | e # _ \<Rightarrow> Some (fst e))
                       (if m = [] then None else Some (fst (last m)))
             in Inr (s1\<lparr>stor := file_Create (stor s1) f (TableBody td)\<rparr>, addTableFile r level t)))"

definition cm_commit :: "session \<Rightarrow> sessionRecord \<Rightarrow> u64 \<Rightarrow> u64 \<Rightarrow> error + session" where
  "cm_commit s r journal sq = session_commit s (r\<lparr>r_journalNum := Some journal, r_seq := Some sq\<rparr>)"

text \<open>
  Modelled from the spec: \<^verbatim>\<open>newMem\<close> (section 4.7, rotation): the memtable in use, if a
  journal was open, becomes the frozen one; a new journal file is opened under the next
  file number and a fresh memtable is created.
\<close>

definition newMem :: "DB \<Rightarrow> error + DB" where
  "newMem d =
     (case map_of (s_fault (stor (d_s d))) OpCreateJournal of
        Some e \<Rightarrow> Inl e
      | None \<Rightarrow>
          (case allocFileNum (d_s d) of (num, s1) \<Rightarrow>
             let f = \<lparr>Num = num, Type = TypeJournal\<rparr>
             in Inr (d\<lparr>d_s := s1\<lparr>stor := file_Create (stor s1) f (JournalBody None [])\<rparr>,
                       d_frozenMem := (if d_journalFile d = None then None else Some (d_mem d)),
                       d_frozenJournalFile := d_journalFile d,
                       d_frozenSeq := d_seq d,
                       d_journalFile := Some f,
                       d_mem := []\<rparr>)))"

text \<open>
  Modelled from the spec: \<^verbatim>\<open>cleanFiles\<close> (section 8: a file not referenced by the current
  version is deleted): tables of the current version, journals not older than the
  session's journal numbers and the manifest in use are kept.
\<close>

definition cleanFiles :: "DB \<Rightarrow> DB" where
  "cleanFiles d =
     (let s = d_s d;
          live = map (\<lambda>t. Num (t_file t)) (concat (tables (s_version s)));
          keep = (\<lambda>f. case Type f of
                    TypeTable \<Rightarrow> Num f \<in> set live
                  | TypeJournal \<Rightarrow> stJournalNum s \<le> Num f \<or> Num f = stPrevJournalNum s
                  | TypeManifest \<Rightarrow> manifest s = Some (Num f)
                  | TypeTemp \<Rightarrow> False)
      in d\<lparr>d_s := s\<lparr>stor := (stor s)\<lparr>files := filter (\<lambda>(f, b). keep f) (files (stor s))\<rparr>\<rparr>\<rparr>)"

subsection \<open>Journal recovery: \<^verbatim>\<open>(*DB).recoverJournal\<close>\<close>

text \<open>
  The inner \<^verbatim>\<open>for\<close> loop over the records of one journal. The state is the DB (for
  \<^verbatim>\<open>d.seq\<close> and the session), the memtable being filled and the pending edit of the
  flushes. The reader was made with \<^verbatim>\<open>dropper{s, file}\<close>: what it drops is noted in the
  session, under the file being read. \<open>unread\<close> measures what a reader has left.
\<close>

definition unread :: "block list \<Rightarrow> nat" where
  "unread bs = length (concat bs) + length bs"

lemma jr_Next_unread:
  "jr_Next strict bs = (ds, Inr bs1) \<Longrightarrow>
     unread bs1 \<le> unread bs \<and> (\<exists>c cs bs'. bs1 = (c # cs) # bs')"
  by (induction strict bs arbitrary: ds rule: jr_Next.induct)
     (auto simp: unread_def split: if_splits prod.splits)

lemma read_rest_unread: "read_rest strict bs = (ds, r, bs') \<Longrightarrow> unread bs' \<le> unread bs"
  by (induction strict bs arbitrary: ds r bs' rule: read_rest.induct)
     (auto simp: unread_def split: if_splits prod.splits sum.splits)

lemma buf_ReadFrom_unread:
  "buf_ReadFrom strict ((c # cs) # bs) = (ds, r, bs') \<Longrightarrow> unread bs' < unread ((c # cs) # bs)"
  by (auto simp: unread_def split: if_splits prod.splits sum.splits
           dest!: read_rest_unread)

lemma reader_advances:
  assumes "(ds, Inr bs1) = jr_Next strict bs" and "(ds', r, bs2) = buf_ReadFrom strict bs1"
  shows "unread bs2 < unread bs"
proof -
  from assms(1) jr_Next_unread [of strict bs ds bs1]
  obtain c cs bs' where le: "unread bs1 \<le> unread bs" and bs1: "bs1 = (c # cs) # bs'"
    by auto
  from assms(2) bs1 buf_ReadFrom_unread [of strict c cs bs' ds' r bs2]
  have "unread bs2 < unread bs1" by simp
  with le show ?thesis by simp
qed

function replay_records ::
  "bool \<Rightarrow> nat \<Rightarrow> File \<Rightarrow> block list \<Rightarrow> DB \<times> memdb \<times> sessionRecord \<Rightarrow>
     error + (DB \<times> memdb \<times> sessionRecord)" where
  "replay_records strict writeBuffer file bs (d, mem, r) =
     (case jr_Next strict bs of
        (ds, Inl err) \<Rightarrow> (if err = EOF then Inr (drop_to file ds d, mem, r) else Inl err)
      | (ds, Inr bs1) \<Rightarrow>
          (case buf_ReadFrom strict bs1 of
             (ds', Inl err, bs2) \<Rightarrow>
               (if strict then Inl err
                else replay_records strict writeBuffer file bs2
                       (drop_to file (ds @ ds') d, mem, r))
           | (ds', Inr data, bs2) \<Rightarrow>
               (case batch_decode data of
                  Inl err \<Rightarrow> Inl err
                | Inr batch \<Rightarrow>
                    (case memReplay (cmp (d_s d)) batch mem of
                       Inl err \<Rightarrow> Inl err
                     | Inr mem' \<Rightarrow>
                         (let d' = (drop_to file (ds @ ds') d)
                                     \<lparr>d_seq := b_seq batch + of_nat (batch_len batch)\<rparr> in
                          if writeBuffer \<le> memdb_Size mem' then
                            (case cm_flush (d_s d') r mem' 0 of
                               Inl err \<Rightarrow> Inl err
                             | Inr (s', r') \<Rightarrow>
                                 replay_records strict writeBuffer file bs2 (d'\<lparr>d_s := s'\<rparr>, [], r'))
                          else replay_records strict writeBuffer file bs2 (d', mem', r))))))"
  by pat_completeness auto
termination replay_records
  by (relation "measure (\<lambda>(strict, writeBuffer, file, bs, st). unread bs)")
     (auto intro: reader_advances)

declare replay_records.simps [simp del]

text \<open>
  The state of the outer loop over the journal files: the DB, the memtable of the journal
  read last (\<^verbatim>\<open>mem\<close>, \<^verbatim>\<open>nil\<close> at first), that journal (\<^verbatim>\<open>of\<close>) and the pending edit.
\<close>

record rjState =
  rj_d :: DB
  rj_mem :: "memdb option"
  rj_of :: "File option"
  rj_cm :: sessionRecord

definition flush_if_any :: "session \<Rightarrow> sessionRecord \<Rightarrow> memdb option \<Rightarrow> error + (session \<times> sessionRecord)" where
  "flush_if_any s r mem =
     (case mem of
        None \<Rightarrow> Inr (s, r)
      | Some m \<Rightarrow> (if 0 < memdb_Len m then cm_flush s r m 0 else Inr (s, r)))"

definition remove_of :: "session \<Rightarrow> File option \<Rightarrow> session" where
  "remove_of s f = (case f of None \<Rightarrow> s | Some g \<Rightarrow> s\<lparr>stor := file_Remove (stor s) g\<rparr>)"

text \<open>The block \<^verbatim>\<open>if mem != nil { ... }\<close> at the head of the outer loop.\<close>

definition finish_previous :: "File \<Rightarrow> rjState \<Rightarrow> error + rjState" where
  "finish_previous file st =
     (case rj_mem st of
        None \<Rightarrow> Inr st
      | Some m \<Rightarrow>
          (case flush_if_any (d_s (rj_d st)) (rj_cm st) (Some m) of
             Inl err \<Rightarrow> Inl err
           | Inr (s1, r1) \<Rightarrow>
               (case cm_commit s1 r1 (Num file) (d_seq (rj_d st)) of
                  Inl err \<Rightarrow> Inl err
                | Inr s2 \<Rightarrow>
                    Inr (st\<lparr>rj_d := (rj_d st)\<lparr>d_s := remove_of s2 (rj_of st)\<rparr>,
                            rj_cm := emptyRecord, rj_of := None\<rparr>))))"

fun replay_files :: "bool \<Rightarrow> nat \<Rightarrow> File list \<Rightarrow> rjState \<Rightarrow> error + rjState" where
  "replay_files strict writeBuffer [] st = Inr st"
| "replay_files strict writeBuffer (file # rest) st =
     (case file_Open (stor (d_s (rj_d st))) file of
        Inl err \<Rightarrow> Inl err
      | Inr items \<Rightarrow>
          (case finish_previous file st of
             Inl err \<Rightarrow> Inl err
           | Inr st1 \<Rightarrow>
               (case replay_records strict writeBuffer file items (rj_d st1, [], rj_cm st1) of
                  Inl err \<Rightarrow> Inl err
                | Inr (d', mem', r') \<Rightarrow>
                    replay_files strict writeBuffer rest
                      \<lparr>rj_d = d', rj_mem = Some mem', rj_of = Some file, rj_cm = r'\<rparr>)))"

definition recoverable_journals :: "session \<Rightarrow> File list" where
  "recoverable_journals s =
     filter (\<lambda>file. stJournalNum s \<le> Num file \<or> Num file = stPrevJournalNum s)
       (files_sort (s_getFiles s (TypeOnly TypeJournal)))"

definition recoverJournal :: "DB \<Rightarrow> error + DB" where
  "recoverJournal d =
     (let s = d_s d;
          rJfiles = recoverable_journals s;
          s' = foldl markFileNum s (map Num rJfiles);
          strict = HasFlag (s_o s') OFStrict;
          writeBuffer = GetWriteBuffer (s_o s')
      in case replay_files strict writeBuffer rJfiles
                \<lparr>rj_d = d\<lparr>d_s := s'\<rparr>, rj_mem = None, rj_of = None, rj_cm = emptyRecord\<rparr> of
           Inl err \<Rightarrow> Inl err
         | Inr st \<Rightarrow>
             (case newMem (rj_d st) of
                Inl err \<Rightarrow> Inl err
              | Inr d1 \<Rightarrow>
                  (case flush_if_any (d_s d1) (rj_cm st) (rj_mem st) of
                     Inl err \<Rightarrow> Inl err
                   | Inr (s1, r1) \<Rightarrow>
                       (case cm_commit s1 r1
                               (case d_journalFile d1 of Some f \<Rightarrow> Num f | None \<Rightarrow> 0)
                               (d_seq d1) of
                          Inl err \<Rightarrow> Inl err
                        | Inr s2 \<Rightarrow> Inr (d1\<lparr>d_s := remove_of s2 (rj_of st)\<rparr>)))))"

subsection \<open>\<^verbatim>\<open>openDB\<close>, \<^verbatim>\<open>Open\<close>\<close>

definition openDB :: "session \<Rightarrow> error + DB" where
  "openDB s =
     (let db = \<lparr>d_seq = stSeq s, d_s = s, d_mem = [], d_frozenMem = None,
                d_journalFile = None, d_frozenJournalFile = None, d_frozenSeq = 0,
                d_compErr = None, d_compStats = [], d_snaps = [], d_closed = 0,
                d_closer = None\<rparr>
      in case recoverJournal db of
           Inl err \<Rightarrow> Inl err
         | Inr db' \<Rightarrow> Inr (cleanFiles db'))"

text \<open>
  \<^verbatim>\<open>Open\<close>. The deferred \<^verbatim>\<open>s.close()\<close> on an error only releases the session, which the
  caller never sees.
\<close>

definition Open :: "Storage \<Rightarrow> Options \<Rightarrow> error + DB" where
  "Open p o' =
     (case newSession p o' of
        Inl err \<Rightarrow> Inl err
      | Inr s \<Rightarrow>
          (let r = session_recover s;
               err = (case r of Inl e \<Rightarrow> Some e | Inr _ \<Rightarrow> None);
               s1 = (case r of Inl _ \<Rightarrow> s | Inr s' \<Rightarrow> s')
           in if os_IsNotExist err \<and> HasFlag (s_o s1) OFCreateIfMissing then
                (case session_create s1 of
                   Inl e \<Rightarrow> Inl e
                 | Inr s2 \<Rightarrow> openDB s2)
              else if err = None \<and> HasFlag (s_o s1) OFErrorIfExist then Inl ErrExist
              else (case err of
                      Some e \<Rightarrow> Inl e
                    | None \<Rightarrow> openDB s1)))"

subsection \<open>\<^verbatim>\<open>Recover\<close>\<close>

text \<open>
  A call of \<^verbatim>\<open>Recover\<close> ends in one of three ways: a run-time panic, a returned error, or
  a returned DB.
\<close>

datatype 'a outcome = Panic string | Failed error | Ok 'a

text \<open>The loop \<^verbatim>\<open>for _, f := range ff\<close>: the edit being built and the newest table.\<close>

fun recover_tables ::
  "session \<Rightarrow> File list \<Rightarrow> sessionRecord \<times> tFile option \<Rightarrow> error + (sessionRecord \<times> tFile option)" where
  "recover_tables s [] acc = Inr acc"
| "recover_tables s (f # ff) (r, nt) =
     (if Type f \<noteq> TypeTable then recover_tables s ff (r, nt)
      else
        (case file_Size (stor s) f of
           Inl err \<Rightarrow> Inl err
         | Inr sz \<Rightarrow>
             (let t = newTFile f sz None None;
                  iter = tops_newIterator (stor s) t
              in case iter_First iter of
                   (True, k, e) \<Rightarrow>
                     (case iter_Last iter of
                        (True, k', e') \<Rightarrow>
                          (let t' = t\<lparr>t_min := k, t_max := k'\<rparr>
                           in recover_tables s ff (addTableFile r 0 t', Some t'))
                      | (False, k', Some err) \<Rightarrow> Inl err
                      | (False, k', None) \<Rightarrow> recover_tables s ff (r, nt))
                 | (False, k, Some err) \<Rightarrow> Inl err
                 | (False, k, None) \<Rightarrow> recover_tables s ff (r, nt))))"

text \<open>The loop \<^verbatim>\<open>for iter.Next()\<close> over the newest table.\<close>

fun largest_seq :: "iKey list \<Rightarrow> u64 \<Rightarrow> u64" where
  "largest_seq [] lseq = lseq"
| "largest_seq (k # ks) lseq =
     (case parseNum k of
        (sq, t, ok) \<Rightarrow>
          if \<not> ok then largest_seq ks lseq
          else if lseq < sq then largest_seq ks sq
          else largest_seq ks lseq)"

text \<open>
  \<^verbatim>\<open>Recover\<close> up to and including the commit of the new manifest (lines 177 to 270): the
  session as it is handed to \<^verbatim>\<open>openDB\<close>.
\<close>

definition Recover_session :: "Storage \<Rightarrow> Options \<Rightarrow> session outcome" where
  "Recover_session p o' =
     (if HasFlag o' OFStrict then Failed ErrRecoverStrict
      else
        (case newSession p o' of
           Inl err \<Rightarrow> Failed err
         | Inr s \<Rightarrow>
             (let ff = files_sort (s_getFiles s TypeAll)
              in case recover_tables s ff (emptyRecord, None) of
                   Inl err \<Rightarrow> Failed err
                 | Inr (r, nt) \<Rightarrow>
                     (let r' = (case nt of
                                  None \<Rightarrow> r
                                | Some t \<Rightarrow>
                                    setSeq r (largest_seq (iter_keys (tops_newIterator (stor s) t)) 0))
                      in if ff = [] then Panic ''index out of range''
                         else
                           (let s1 = s\<lparr>stFileNum := Num (last ff) + 1\<rparr>
                            in case session_create s1 of
                                 Inl err \<Rightarrow> Failed err
                               | Inr s2 \<Rightarrow>
                                   (case session_commit s2 r' of
                                      Inl err \<Rightarrow> Failed err
                                    | Inr s3 \<Rightarrow> Ok s3))))))"

definition Recover :: "Storage \<Rightarrow> Options \<Rightarrow> DB outcome" where
  "Recover p o' =
     (case Recover_session p o' of
        Panic msg \<Rightarrow> Panic msg
      | Failed err \<Rightarrow> Failed err
      | Ok s \<Rightarrow> (case openDB s of Inl err \<Rightarrow> Failed err | Inr db \<Rightarrow> Ok db))"

subsection \<open>The closed flag\<close>

text \<open>
  Modelled from the spec: \<^verbatim>\<open>d.ok\<close> and \<^verbatim>\<open>d.setClosed\<close> (section 5, "closing the DB
  refuses new public calls with Closed"; the file that defines them is not among the
  sources): \<open>ok\<close> is the closed error once the \<^verbatim>\<open>closed\<close> word of the struct is set, and
  \<open>setClosed\<close> sets it, telling whether it was this call that did.
\<close>

definition isClosed :: "DB \<Rightarrow> bool" where
  "isClosed d = (d_closed d \<noteq> 0)"

definition ok :: "DB \<Rightarrow> error option" where
  "ok d = (if isClosed d then Some ErrClosed else None)"

definition setClosed :: "DB \<Rightarrow> bool \<times> DB" where
  "setClosed d = (if d_closed d = 0 then (True, d\<lparr>d_closed := 1\<rparr>) else (False, d))"

definition getSeq :: "DB \<Rightarrow> u64" where
  "getSeq d = d_seq d"

definition getMem :: "DB \<Rightarrow> memdb \<times> memdb option" where
  "getMem d = (d_mem d, d_frozenMem d)"

subsection \<open>\<^verbatim>\<open>(*DB).get\<close> and \<^verbatim>\<open>(*DB).Get\<close>\<close>

text \<open>
  The closure \<^verbatim>\<open>memGet\<close>: its boolean result, and the \<^verbatim>\<open>value\<close> and \<^verbatim>\<open>err\<close> it leaves in
  the variables of \<^verbatim>\<open>get\<close>.
\<close>

definition memGet :: "(string \<Rightarrow> string \<Rightarrow> int) \<Rightarrow> string \<Rightarrow> iKey \<Rightarrow> memdb \<Rightarrow> bool \<times> string \<times> error option" where
  "memGet ucmp key ikey m =
     (case memdb_Find ucmp m ikey of
        Inl err \<Rightarrow> (False, [], Some err)
      | Inr (rkey, val) \<Rightarrow>
          (case parseIkey rkey of
             (uk, sq, t, okay) \<Rightarrow>
               if \<not> okay \<or> ucmp uk key \<noteq> 0 \<or> t = tDel then (False, [], Some ErrNotFound)
               else (True, val, None)))"

text \<open>
  \<^verbatim>\<open>get\<close>: the value and the error it returns. The compaction that \<^verbatim>\<open>cState\<close> schedules
  is a send on a channel and changes nothing the call returns.
\<close>

definition get :: "DB \<Rightarrow> string \<Rightarrow> u64 \<Rightarrow> ReadOptions \<Rightarrow> string \<times> error option" where
  "get d key sq ro =
     (let s = d_s d;
          ucmp = cmp s;
          ikey = newIKey key sq tSeek;
          fromVersion = (case version_get (stor s) ucmp (s_version s) ikey of
                           (val, cState, err) \<Rightarrow> (val, err))
      in case getMem d of
           (mem, frozenMem) \<Rightarrow>
             (case memGet ucmp key ikey mem of
                (True, val, err) \<Rightarrow> (val, err)
              | (False, val, err) \<Rightarrow>
                  (case frozenMem of
                     None \<Rightarrow> fromVersion
                   | Some fm \<Rightarrow>
                       (case memGet ucmp key ikey fm of
                          (True, val', err') \<Rightarrow> (val', err')
                        | (False, val', err') \<Rightarrow> fromVersion))))"

definition Get :: "DB \<Rightarrow> string \<Rightarrow> ReadOptions \<Rightarrow> string \<times> error option" where
  "Get d key ro =
     (case ok d of
        Some err \<Rightarrow> ([], Some err)
      | None \<Rightarrow>
          (case get d key (getSeq d) ro of
             (val, err) \<Rightarrow>
               (if \<not> RHasFlag ro RFDontCopyBuffer then ([] @ val, err) else (val, err))))"

subsection \<open>Snapshots and iterators\<close>

text \<open>
  Modelled from the spec: snapshots (section 4.10) and the DB iterator (section 4.9), as
  far as their constructors go: a snapshot pins the last sequence and is entered in the
  list of outstanding ones; an iterator is bound by a sequence, or is the empty iterator
  that carries an error.
\<close>

datatype Snapshot = Snapshot u64

datatype Iterator = EmptyIterator error | DBIterator u64

definition newSnapshot :: "DB \<Rightarrow> Snapshot \<times> DB" where
  "newSnapshot d = (Snapshot (getSeq d), d\<lparr>d_snaps := d_snaps d @ [getSeq d]\<rparr>)"

definition NewIterator :: "DB \<Rightarrow> ReadOptions \<Rightarrow> Iterator" where
  "NewIterator d ro =
     (case ok d of
        Some err \<Rightarrow> EmptyIterator err
      | None \<Rightarrow> (case newSnapshot d of (Snapshot sq, d') \<Rightarrow> DBIterator sq))"

definition GetSnapshot :: "DB \<Rightarrow> (error + Snapshot) \<times> DB" where
  "GetSnapshot d =
     (case ok d of
        Some err \<Rightarrow> (Inl err, d)
      | None \<Rightarrow> (case newSnapshot d of (p, d') \<Rightarrow> (Inr p, d')))"

subsection \<open>\<^verbatim>\<open>(*DB).GetProperty\<close>\<close>

text \<open>
  \<^verbatim>\<open>fmt.Scanf("%d%s", &level, &rest)\<close> reads the standard input of the process, which is
  therefore an argument of the model. The result is the number of items stored and the
  value left in \<^verbatim>\<open>level\<close> (0 when none was stored). For \<^verbatim>\<open>%d\<close> into an unsigned
  integer: leading blanks are skipped, a newline is not; then digits, with no sign, that
  fit 64 bits. For \<^verbatim>\<open>%s\<close>: blanks are skipped, then a token that is not empty is needed,
  and a newline or the end of the input gives none.
\<close>

definition is_blank :: "char \<Rightarrow> bool" where
  "is_blank c = (c = CHR '' '' \<or> c = CHR 0x09 \<or> c = CHR 0x0D)"

definition is_digit :: "char \<Rightarrow> bool" where
  "is_digit c = ((48::nat) \<le> of_char c \<and> of_char c \<le> (57::nat))"

definition digit_val :: "char \<Rightarrow> nat" where
  "digit_val c = of_char c - 48"

definition parse_decimal :: "string \<Rightarrow> nat" where
  "parse_decimal ds = foldl (\<lambda>n c. 10 * n + digit_val c) 0 ds"

definition fmt_Scanf_d_s :: "string \<Rightarrow> nat \<times> nat" where
  "fmt_Scanf_d_s input =
     (let s1 = dropWhile is_blank input;
          ds = takeWhile is_digit s1;
          s2 = dropWhile is_blank (dropWhile is_digit s1)
      in if ds = [] \<or> 2 ^ 64 \<le> parse_decimal ds then (0, 0)
         else if s2 = [] \<or> hd s2 = CHR 0x0A then (1, parse_decimal ds)
         else (2, parse_decimal ds))"

text \<open>\<^verbatim>\<open>fmt.Sprint\<close> of a count: its decimal digits.\<close>

fun fmt_Sprint :: "nat \<Rightarrow> string" where
  "fmt_Sprint n =
     (if n < 10 then [''0123456789'' ! n]
      else fmt_Sprint (n div 10) @ [''0123456789'' ! (n mod 10)])"

declare fmt_Sprint.simps [simp del]

definition HasPrefix :: "string \<Rightarrow> string \<Rightarrow> bool" where
  "HasPrefix str pre = (take (length pre) str = pre)"

text \<open>
  The lines of the \<^verbatim>\<open>stats\<close> and \<^verbatim>\<open>sstables\<close> properties are written by
  \<^verbatim>\<open>fmt.Sprintf\<close> with floating-point and quoting verbs; the two line printers are
  arguments of the model.
\<close>

record printers =
  stats_line :: "nat \<Rightarrow> nat \<Rightarrow> u64 \<Rightarrow> cStats \<Rightarrow> string"
  level_line :: "nat \<Rightarrow> string"
  table_line :: "tFile \<Rightarrow> string"

definition compStats_at :: "DB \<Rightarrow> nat \<Rightarrow> cStats" where
  "compStats_at d level =
     (if level < length (d_compStats d) then d_compStats d ! level
      else \<lparr>c_duration = 0, c_read = 0, c_write = 0\<rparr>)"

definition tFiles_size :: "tFile list \<Rightarrow> u64" where
  "tFiles_size tt = foldl (\<lambda>sum t. sum + t_size t) 0 tt"

definition stats_text :: "printers \<Rightarrow> nat \<Rightarrow> DB \<Rightarrow> version \<Rightarrow> string" where
  "stats_text pr kNumLevels d v =
     ''Compactions'' @ [CHR 0x0A] @
     '' Level |   Tables   |    Size(MB)   |    Time(sec)  |    Read(MB)   |   Write(MB)'' @ [CHR 0x0A] @
     ''-------+------------+---------------+---------------+---------------+---------------'' @ [CHR 0x0A] @
     concat (map (\<lambda>level.
                let tt = tables_at v level; st = compStats_at d level
                in if length tt = 0 \<and> c_duration st = 0 then []
                   else stats_line pr level (length tt) (tFiles_size tt) st)
             [0 ..< kNumLevels])"

definition sstables_text :: "printers \<Rightarrow> nat \<Rightarrow> version \<Rightarrow> string" where
  "sstables_text pr kNumLevels v =
     concat (map (\<lambda>level. level_line pr level @ concat (map (table_line pr) (tables_at v level)))
             [0 ..< kNumLevels])"

text \<open>
  \<^verbatim>\<open>GetProperty\<close>. \<open>kNumLevels\<close> is a constant of a file that is not among the sources and
  is an argument, as are the standard input and the line printers.
\<close>

definition GetProperty :: "nat \<Rightarrow> printers \<Rightarrow> string \<Rightarrow> DB \<Rightarrow> string \<Rightarrow> string \<times> error option" where
  "GetProperty kNumLevels pr stdin d name =
     (case ok d of
        Some err \<Rightarrow> ([], Some err)
      | None \<Rightarrow>
          (if \<not> HasPrefix name ''leveldb.'' then ([], Some (ErrUnknownProperty name))
           else
             (let p = drop (length ''leveldb.'') name;
                  v = s_version (d_s d)
              in if HasPrefix p ''num-files-at-level'' then
                   (case fmt_Scanf_d_s stdin of
                      (n, level) \<Rightarrow>
                        if n \<noteq> 1 \<or> kNumLevels \<le> level then ([], Some (ErrInvalidProperty name))
                        else (fmt_Sprint (tLen v level), None))
                 else if p = ''stats'' then (stats_text pr kNumLevels d v, None)
                 else if p = ''sstables'' then (sstables_text pr kNumLevels v, None)
                 else ([], Some (ErrUnknownProperty name)))))"

subsection \<open>\<^verbatim>\<open>(*DB).GetApproximateSizes\<close>\<close>

record Range =
  Start :: string
  Limit :: string

text \<open>
  The loop over the ranges. \<^verbatim>\<open>version.getApproximateOffset\<close> is not among the sources and
  the specification leaves the offsets to the table codec; it is the argument \<open>offsetOf\<close>.
  A subtraction of \<^verbatim>\<open>uint64\<close> values wraps around; the source guards it.
\<close>

fun sizes_loop ::
  "(version \<Rightarrow> iKey \<Rightarrow> error + u64) \<Rightarrow> version \<Rightarrow> Range list \<Rightarrow> u64 list \<Rightarrow> error + u64 list" where
  "sizes_loop offsetOf v [] sizes = Inr sizes"
| "sizes_loop offsetOf v (r # rs) sizes =
     (let mn = newIKey (Start r) kMaxSeq tSeek;
          mx = newIKey (Limit r) kMaxSeq tSeek
      in case offsetOf v mn of
           Inl err \<Rightarrow> Inl err
         | Inr start \<Rightarrow>
             (case offsetOf v mx of
                Inl err \<Rightarrow> Inl err
              | Inr limit \<Rightarrow>
                  (let sz = (if start \<le> limit then limit - start else 0)
                   in sizes_loop offsetOf v rs (sizes @ [sz]))))"

definition GetApproximateSizes ::
  "(version \<Rightarrow> iKey \<Rightarrow> error + u64) \<Rightarrow> DB \<Rightarrow> Range list \<Rightarrow> error + u64 list" where
  "GetApproximateSizes offsetOf d ranges =
     (case ok d of
        Some err \<Rightarrow> Inl err
      | None \<Rightarrow> sizes_loop offsetOf (s_version (d_s d)) ranges [])"

subsection \<open>\<^verbatim>\<open>(*DB).CompactRange\<close> and \<^verbatim>\<open>(*DB).Close\<close>\<close>

text \<open>
  \<^verbatim>\<open>CompactRange\<close> waits on channels twice. Which case of each \<^verbatim>\<open>select\<close> fires is decided
  by the other goroutines, so the two events are arguments: for the push of the request,
  the close signal, a compaction error, or the request taken; for the wait, the close
  signal or the end of the compaction.
\<close>

datatype pushEvent = PushClosed | PushCompErr error | PushAccepted

datatype waitEvent = WaitClosed | WaitDone

definition CompactRange :: "DB \<Rightarrow> Range \<Rightarrow> pushEvent \<Rightarrow> waitEvent \<Rightarrow> error option" where
  "CompactRange d r ev1 ev2 =
     (case ok d of
        Some err \<Rightarrow> Some err
      | None \<Rightarrow>
          (case ev1 of
             PushClosed \<Rightarrow> Some ErrClosed
           | PushCompErr err \<Rightarrow> Some err
           | PushAccepted \<Rightarrow>
               (case ev2 of
                  WaitClosed \<Rightarrow> Some ErrClosed
                | WaitDone \<Rightarrow> None)))"

text \<open>
  \<^verbatim>\<open>Close\<close>: the error it returns and the DB it leaves. The compaction error is taken
  from \<^verbatim>\<open>compErrCh\<close> if one is waiting; the closer's error is returned when there is no
  other.
\<close>

definition Close :: "DB \<Rightarrow> error option \<times> DB" where
  "Close d =
     (case setClosed d of
        (False, d') \<Rightarrow> (Some ErrClosed, d')
      | (True, d') \<Rightarrow>
          (let err = d_compErr d'
           in case d_closer d' of
                None \<Rightarrow> (err, d')
              | Some err1 \<Rightarrow> ((if err = None then err1 else err), d')))"

subsection \<open>The options setter: \<^verbatim>\<open>iOptions\<close>\<close>

text \<open>
  \<^verbatim>\<open>iOptions\<close> wraps the options of a session, so its setters act on the session. Package
  opt is not among the sources; which values its setters accept is the argument \<open>valid\<close>.
\<close>

definition opt_SetMaxOpenFiles :: "(int \<Rightarrow> bool) \<Rightarrow> Options \<Rightarrow> int \<Rightarrow> error option \<times> Options" where
  "opt_SetMaxOpenFiles valid o' mx =
     (if valid mx then (None, o'\<lparr>MaxOpenFiles := mx\<rparr>) else (Some ErrInvalid, o'))"

definition opt_SetBlockCache :: "(lruCache option \<Rightarrow> bool) \<Rightarrow> Options \<Rightarrow> lruCache option \<Rightarrow> error option \<times> Options" where
  "opt_SetBlockCache valid o' c =
     (if valid c then (None, o'\<lparr>BlockCache := c\<rparr>) else (Some ErrInvalid, o'))"

text \<open>\<^verbatim>\<open>(*DB).GetOptionsSetter\<close> returns \<^verbatim>\<open>d.s.o\<close>, the wrapper around the DB's session.\<close>

definition GetOptionsSetter :: "DB \<Rightarrow> session" where
  "GetOptionsSetter d = d_s d"

definition GetComparer :: "session \<Rightarrow> string \<Rightarrow> string \<Rightarrow> int" where
  "GetComparer s = cmp s"

definition SetComparer :: "session \<Rightarrow> (string \<Rightarrow> string \<Rightarrow> int) \<Rightarrow> error option" where
  "SetComparer s c = Some ErrNotAllowed"

definition SetMaxOpenFiles :: "(int \<Rightarrow> bool) \<Rightarrow> session \<Rightarrow> int \<Rightarrow> error option \<times> session" where
  "SetMaxOpenFiles valid s mx =
     (case opt_SetMaxOpenFiles valid (s_o s) mx of
        (Some err, o2) \<Rightarrow> (Some err, s)
      | (None, o2) \<Rightarrow>
          (None, s\<lparr>s_o := o2, tops_cache := cache_SetCapacity (tops_cache s) mx\<rparr>))"

definition SetBlockCache :: "(lruCache option \<Rightarrow> bool) \<Rightarrow> session \<Rightarrow> lruCache option \<Rightarrow> error option \<times> session" where
  "SetBlockCache valid s c =
     (case opt_SetBlockCache valid (s_o s) c of
        (Some err, o2) \<Rightarrow> (Some err, s)
      | (None, o2) \<Rightarrow>
          (None, s\<lparr>s_o := o2, tops_cache := cache_Purge (tops_cache s)\<rparr>))"

section \<open>Concrete inputs\<close>

definition example_options :: Options where
  "example_options = \<lparr>Flag = [], WriteBuffer = 4096, MaxOpenFiles = 1000, BlockCache = None\<rparr>"

definition empty_storage :: Storage where
  "empty_storage = \<lparr>files = [], s_fault = [], current = None\<rparr>"

definition example_session :: session where
  "example_session =
     \<lparr>stor = empty_storage, s_o = example_options, cmp = bytes_Compare, stFileNum = 2,
      stJournalNum = 1, stPrevJournalNum = 0, stSeq = 2, s_version = \<lparr>tables = []\<rparr>,
      manifest = None, tops_cache = \<lparr>capacity = 1000, cached = []\<rparr>, dropped = []\<rparr>"

definition example_db :: DB where
  "example_db =
     \<lparr>d_seq = 2, d_s = example_session, d_mem = [], d_frozenMem = None,
      d_journalFile = None, d_frozenJournalFile = None, d_frozenSeq = 0,
      d_compErr = None, d_compStats = [], d_snaps = [], d_closed = 0, d_closer = None\<rparr>"

text \<open>
  A DB after \<^verbatim>\<open>Put("k", "v")\<close> under sequence 1, a rotation of the memtable, and
  \<^verbatim>\<open>Delete("k")\<close> under sequence 2: the value is in the frozen memtable, the tombstone in
  the active one.
\<close>

definition tombstone_db :: DB where
  "tombstone_db =
     example_db\<lparr>d_mem := [(IKey ''k'' 2 tDel, [])],
                d_frozenMem := Some [(IKey ''k'' 1 tVal, ''v'')],
                d_frozenSeq := 1\<rparr>"

definition plain_printers :: printers where
  "plain_printers =
     \<lparr>stats_line = (\<lambda>l n sz st. []), level_line = (\<lambda>l. []), table_line = (\<lambda>t. [])\<rparr>"

text \<open>A DB whose current version has two tables at level 0 and none elsewhere.\<close>

definition two_table_db :: DB where
  "two_table_db =
     example_db\<lparr>d_s := example_session\<lparr>s_version :=
        \<lparr>tables = [[newTFile \<lparr>Num = 4, Type = TypeTable\<rparr> 100 None None,
                     newTFile \<lparr>Num = 5, Type = TypeTable\<rparr> 100 None None]]\<rparr>\<rparr>\<rparr>"

text \<open>Offsets for \<^verbatim>\<open>GetApproximateSizes\<close>: ten times the length of the user key probed.\<close>

definition length_offsets :: "version \<Rightarrow> iKey \<Rightarrow> error + u64" where
  "length_offsets v k = Inr (10 * of_nat (length (ukey k)))"

definition example_ranges :: "Range list" where
  "example_ranges = [\<lparr>Start = ''a'', Limit = ''ccc''\<rparr>, \<lparr>Start = ''ccc'', Limit = ''a''\<rparr>]"

text \<open>A session whose table cache holds two open tables, 7 the more recently used.\<close>

definition busy_session :: session where
  "busy_session = example_session\<lparr>tops_cache := \<lparr>capacity = 1000, cached = [7, 3]\<rparr>\<rparr>"

definition busy_db :: DB where
  "busy_db = example_db\<lparr>d_s := busy_session\<rparr>"

text \<open>
  A storage that holds a database (CURRENT names a manifest with no edit), and options
  for \<^verbatim>\<open>Open\<close>.
\<close>

definition create_options :: Options where
  "create_options = example_options\<lparr>Flag := [OFCreateIfMissing]\<rparr>"

definition exist_options :: Options where
  "exist_options = example_options\<lparr>Flag := [OFCreateIfMissing, OFErrorIfExist]\<rparr>"

definition existing_storage :: Storage where
  "existing_storage =
     \<lparr>files = [(\<lparr>Num = 1, Type = TypeManifest\<rparr>, ManifestBody (Some []))],
      s_fault = [], current = Some 1\<rparr>"

text \<open>
  A storage with two tables and nothing else: table 1 holds a record of sequence 9,
  table 2, the newer file, a record of sequence 3.
\<close>

definition two_tables_storage :: Storage where
  "two_tables_storage =
     \<lparr>files =
        [(\<lparr>Num = 1, Type = TypeTable\<rparr>,
          TableBody \<lparr>t_fault = [], t_bytes = 100, t_entries = [(IKey ''a'' 9 tVal, ''x'')]\<rparr>),
         (\<lparr>Num = 2, Type = TypeTable\<rparr>,
          TableBody \<lparr>t_fault = [], t_bytes = 100, t_entries = [(IKey ''b'' 3 tVal, ''y'')]\<rparr>)],
      s_fault = [], current = None\<rparr>"

text \<open>A storage whose only file, a table, has the largest number a \<^verbatim>\<open>uint64\<close> holds.\<close>

definition wrap_storage :: Storage where
  "wrap_storage =
     \<lparr>files = [(\<lparr>Num = - 1, Type = TypeTable\<rparr>,
                TableBody \<lparr>t_fault = [], t_bytes = 100, t_entries = [(IKey ''a'' 5 tVal, ''x'')]\<rparr>)],
      s_fault = [], current = None\<rparr>"

text \<open>
  A database with one journal to replay: CURRENT names manifest 1, whose only edit sets
  the journal number to 2, and journal 2 holds the given blocks. \<open>journal_db\<close> is the DB
  that \<^verbatim>\<open>openDB\<close> hands to \<^verbatim>\<open>recoverJournal\<close> once the session has replayed that manifest.

  \<open>torn_journal\<close> holds eight batches, one put each, \<open>a\<close> to \<open>h\<close> under the sequences 1 to
  8, in four blocks; the checksums of the fragments of \<open>b\<close> and of \<open>d\<close> do not match. The
  batches \<open>c\<close>, \<open>e\<close> and \<open>g\<close> each lie across a block boundary. \<open>intact_prefix\<close> is the
  journal up to the first corruption, and \<open>full_journal\<close> one whose records are all
  \<open>Full\<close> fragments.
\<close>

definition sound :: "chunkType \<Rightarrow> bytes \<Rightarrow> chunk" where
  "sound t data = \<lparr>c_type = t, c_sound = True, c_data = data\<rparr>"

definition unsound :: "chunkType \<Rightarrow> bytes \<Rightarrow> chunk" where
  "unsound t data = \<lparr>c_type = t, c_sound = False, c_data = data\<rparr>"

definition put_batch :: "u64 \<Rightarrow> string \<Rightarrow> string \<Rightarrow> Batch" where
  "put_batch sq k v = \<lparr>b_seq = sq, b_ops = [Op tVal k v]\<rparr>"

definition torn_journal :: "block list" where
  "torn_journal =
     [[sound FullChunk (batch_encode (put_batch 1 ''a'' ''1'')),
       unsound FullChunk (batch_encode (put_batch 2 ''b'' ''2'')),
       sound FirstChunk [Hdr 3]],
      [sound LastChunk [Unit (Op tVal ''c'' ''3'')],
       unsound FullChunk (batch_encode (put_batch 4 ''d'' ''4'')),
       sound FirstChunk [Hdr 5]],
      [sound LastChunk [Unit (Op tVal ''e'' ''5'')],
       sound FullChunk (batch_encode (put_batch 6 ''f'' ''6'')),
       sound FirstChunk [Hdr 7]],
      [sound LastChunk [Unit (Op tVal ''g'' ''7'')],
       sound FullChunk (batch_encode (put_batch 8 ''h'' ''8''))]]"

definition intact_prefix :: "block list" where
  "intact_prefix = [[sound FullChunk (batch_encode (put_batch 1 ''a'' ''1''))]]"

definition full_journal :: "block list" where
  "full_journal =
     [[sound FullChunk (batch_encode (put_batch 1 ''a'' ''1'')),
       unsound FullChunk (batch_encode (put_batch 2 ''b'' ''2'')),
       sound FullChunk (batch_encode (put_batch 3 ''c'' ''3''))],
      [sound FullChunk (batch_encode (put_batch 4 ''d'' ''4''))]]"

definition journal_storage :: "block list \<Rightarrow> Storage" where
  "journal_storage bs =
     \<lparr>files =
        [(\<lparr>Num = 1, Type = TypeManifest\<rparr>,
          ManifestBody (Some [emptyRecord\<lparr>r_nextNum := Some 3, r_seq := Some 0,
                                          r_journalNum := Some 2\<rparr>])),
         (\<lparr>Num = 2, Type = TypeJournal\<rparr>, JournalBody None bs)],
      s_fault = [], current = Some 1\<rparr>"

definition strict_options :: Options where
  "strict_options = example_options\<lparr>Flag := [OFStrict]\<rparr>"

definition journal_db :: "block list \<Rightarrow> Options \<Rightarrow> DB" where
  "journal_db bs o' =
     \<lparr>d_seq = 0,
      d_s = \<lparr>stor = journal_storage bs, s_o = o', cmp = bytes_Compare, stFileNum = 3,
             stJournalNum = 2, stPrevJournalNum = 0, stSeq = 0, s_version = \<lparr>tables = []\<rparr>,
             manifest = None, tops_cache = \<lparr>capacity = MaxOpenFiles o', cached = []\<rparr>,
             dropped = []\<rparr>,
      d_mem = [], d_frozenMem = None, d_journalFile = None, d_frozenJournalFile = None,
      d_frozenSeq = 0, d_compErr = None, d_compStats = [], d_snaps = [], d_closed = 0,
      d_closer = None\<rparr>"

section \<open>What the claims speak of\<close>

text \<open>
  The tables \<^verbatim>\<open>Recover\<close> installs are the table files that hold an entry, in ascending
  order of their numbers; the newest is the last of them. The sequences of a table are
  those of its keys that parse.
\<close>

definition nonempty_tables :: "Storage \<Rightarrow> File list \<Rightarrow> File list" where
  "nonempty_tables p ff =
     filter (\<lambda>f. Type f = TypeTable \<and>
                 (case map_of (files p) f of
                    Some (TableBody td) \<Rightarrow> t_entries td \<noteq> []
                  | _ \<Rightarrow> False)) ff"

definition table_keys :: "Storage \<Rightarrow> File \<Rightarrow> iKey list" where
  "table_keys p f =
     (case map_of (files p) f of
        Some (TableBody td) \<Rightarrow> map fst (t_entries td)
      | _ \<Rightarrow> [])"

definition parsable_seqs :: "iKey list \<Rightarrow> u64 list" where
  "parsable_seqs ks = map seqnum (filter (\<lambda>k. kind k \<le> tVal) ks)"

definition newest_table_seq :: "Storage \<Rightarrow> u64" where
  "newest_table_seq p =
     (case nonempty_tables p (files_sort (stor_getFiles p TypeAll)) of
        [] \<Rightarrow> 0
      | f # fs \<Rightarrow> Max (set (0 # parsable_seqs (table_keys p (last (f # fs))))))"

definition all_tables_seq :: "Storage \<Rightarrow> u64" where
  "all_tables_seq p =
     Max (set (0 # parsable_seqs
                     (concat (map (table_keys p)
                        (filter (\<lambda>f. Type f = TypeTable) (stor_getFiles p TypeAll))))))"

text \<open>
  A block is unsound when the checksum of one of its fragments does not match, and a
  journal is corrupted when one of its blocks is. A reader that is not strict emits one
  notification for each unsound block. \<open>reported\<close> is what the readers of the given
  journals of a storage emit, each notification with its file.
\<close>

definition unsound_block :: "block \<Rightarrow> bool" where
  "unsound_block b = list_ex (\<lambda>c. \<not> c_sound c) b"

definition corrupted :: "block list \<Rightarrow> bool" where
  "corrupted bs = list_ex unsound_block bs"

definition drops :: "block list \<Rightarrow> string list" where
  "drops bs = map (\<lambda>b. ''checksum mismatch'') (filter unsound_block bs)"

definition journal_blocks :: "Storage \<Rightarrow> File \<Rightarrow> block list" where
  "journal_blocks p f = (case map_of (files p) f of Some (JournalBody None bs) \<Rightarrow> bs | _ \<Rightarrow> [])"

definition reported :: "Storage \<Rightarrow> File list \<Rightarrow> (File \<times> string) list" where
  "reported p fs = concat (map (\<lambda>f. map (Pair f) (drops (journal_blocks p f))) fs)"

text \<open>
  The surviving records of a journal: the bodies that a reader which is not strict
  delivers, in order, when \<open>Next\<close> and the read of the body are called in turn until
  \<open>EOF\<close>.
\<close>

function survivors :: "block list \<Rightarrow> bytes list" where
  "survivors bs =
     (case jr_Next False bs of
        (ds, Inl err) \<Rightarrow> []
      | (ds, Inr bs1) \<Rightarrow>
          (case buf_ReadFrom False bs1 of
             (ds', Inl err, bs2) \<Rightarrow> survivors bs2
           | (ds', Inr data, bs2) \<Rightarrow> data # survivors bs2))"
  by pat_completeness auto

termination survivors
  by (relation "measure unread") (auto intro: reader_advances)

declare survivors.simps [simp del]

text \<open>
  The body of the inner loop of \<^verbatim>\<open>recoverJournal\<close> for the bytes of one record
  (\<^verbatim>\<open>batch.decode\<close>, \<^verbatim>\<open>batch.memReplay\<close>, \<^verbatim>\<open>d.seq\<close>, the flush of a large memtable),
  and the same for a list of records. \<open>report\<close> hands notifications to the session of a
  loop state.
\<close>

definition rec_step ::
  "nat \<Rightarrow> bytes \<Rightarrow> DB \<times> memdb \<times> sessionRecord \<Rightarrow> error + (DB \<times> memdb \<times> sessionRecord)" where
  "rec_step writeBuffer data st =
     (case st of (d, mem, r) \<Rightarrow>
        (case batch_decode data of
           Inl err \<Rightarrow> Inl err
         | Inr batch \<Rightarrow>
             (case memReplay (cmp (d_s d)) batch mem of
                Inl err \<Rightarrow> Inl err
              | Inr mem' \<Rightarrow>
                  (let d' = d\<lparr>d_seq := b_seq batch + of_nat (batch_len batch)\<rparr> in
                   if writeBuffer \<le> memdb_Size mem' then
                     (case cm_flush (d_s d') r mem' 0 of
                        Inl err \<Rightarrow> Inl err
                      | Inr (s', r') \<Rightarrow> Inr (d'\<lparr>d_s := s'\<rparr>, [], r'))
                   else Inr (d', mem', r)))))"

fun apply_records ::
  "nat \<Rightarrow> bytes list \<Rightarrow> DB \<times> memdb \<times> sessionRecord \<Rightarrow> error + (DB \<times> memdb \<times> sessionRecord)" where
  "apply_records writeBuffer [] st = Inr st"
| "apply_records writeBuffer (data # rest) st =
     (case rec_step writeBuffer data st of
        Inl err \<Rightarrow> Inl err
      | Inr st' \<Rightarrow> apply_records writeBuffer rest st')"

definition report :: "File \<Rightarrow> string list \<Rightarrow> DB \<times> memdb \<times> sessionRecord \<Rightarrow> DB \<times> memdb \<times> sessionRecord" where
  "report file ds st = (case st of (d, mem, r) \<Rightarrow> (drop_to file ds d, mem, r))"

text \<open>
  What replaying a batch means (section 4.4): its operations are put into the memtable
  in the order appended, the i-th under the sequence \<open>base + i\<close>; the last sequence of the
  DB becomes the base plus the number of operations; a memtable that has reached the
  write buffer is flushed to a table of level 0. \<open>whole_batch\<close> is the batch that bytes
  decode to when every operation of it decodes.
\<close>

definition put_op :: "(string \<Rightarrow> string \<Rightarrow> int) \<Rightarrow> u64 \<Rightarrow> memdb \<Rightarrow> nat \<times> batchOp \<Rightarrow> memdb" where
  "put_op ucmp base m iop =
     (case snd iop of
        Op t k v \<Rightarrow> memdb_Put ucmp m (newIKey k (base + of_nat (fst iop)) t) v
      | BadOp \<Rightarrow> m)"

definition put_all :: "(string \<Rightarrow> string \<Rightarrow> int) \<Rightarrow> Batch \<Rightarrow> memdb \<Rightarrow> memdb" where
  "put_all ucmp b m = foldl (put_op ucmp (b_seq b)) m (enumerate 0 (b_ops b))"

definition whole_batch :: "bytes \<Rightarrow> Batch option" where
  "whole_batch data =
     (case batch_decode data of
        Inr b \<Rightarrow> (if BadOp \<in> set (b_ops b) then None else Some b)
      | Inl err \<Rightarrow> None)"

definition replay_batch ::
  "nat \<Rightarrow> Batch \<Rightarrow> DB \<times> memdb \<times> sessionRecord \<Rightarrow> error + (DB \<times> memdb \<times> sessionRecord)" where
  "replay_batch writeBuffer b st =
     (case st of (d, mem, r) \<Rightarrow>
        (let mem' = put_all (cmp (d_s d)) b mem;
             d' = d\<lparr>d_seq := b_seq b + of_nat (length (b_ops b))\<rparr> in
         if writeBuffer \<le> memdb_Size mem' then
           (case cm_flush (d_s d') r mem' 0 of
              Inl err \<Rightarrow> Inl err
            | Inr (s', r') \<Rightarrow> Inr (d'\<lparr>d_s := s'\<rparr>, [], r'))
         else Inr (d', mem', r)))"

fun replay_batches ::
  "nat \<Rightarrow> Batch list \<Rightarrow> DB \<times> memdb \<times> sessionRecord \<Rightarrow> error + (DB \<times> memdb \<times> sessionRecord)" where
  "replay_batches writeBuffer [] st = Inr st"
| "replay_batches writeBuffer (b # rest) st =
     (case replay_batch writeBuffer b st of
        Inl err \<Rightarrow> Inl err
      | Inr st' \<Rightarrow> replay_batches writeBuffer rest st')"

text \<open>
  A journal cleaned holds the surviving records of the journal and nothing else, each
  as one \<open>Full\<close> fragment in a block of its own. Cleaning a storage cleans every
  journal and leaves everything else as it is; cleaning a session or a DB cleans its
  storage and empties the drop sink.
\<close>

definition whole_block :: "bytes \<Rightarrow> block" where
  "whole_block data = [\<lparr>c_type = FullChunk, c_sound = True, c_data = data\<rparr>]"

definition clean_blocks :: "block list \<Rightarrow> block list" where
  "clean_blocks bs = map whole_block (survivors bs)"

definition clean_body :: "fileBody \<Rightarrow> fileBody" where
  "clean_body b = (case b of JournalBody e bs \<Rightarrow> JournalBody e (clean_blocks bs) | _ \<Rightarrow> b)"

definition clean_storage :: "Storage \<Rightarrow> Storage" where
  "clean_storage p = p\<lparr>files := map (\<lambda>(f, b). (f, clean_body b)) (files p)\<rparr>"

definition clean_session :: "session \<Rightarrow> session" where
  "clean_session s = s\<lparr>stor := clean_storage (stor s), dropped := []\<rparr>"

definition clean_db :: "DB \<Rightarrow> DB" where
  "clean_db d = d\<lparr>d_s := clean_session (d_s d)\<rparr>"

definition clean_rj :: "rjState \<Rightarrow> rjState" where
  "clean_rj st = st\<lparr>rj_d := clean_db (rj_d st)\<rparr>"

text \<open>
  One storage keeps the journals of another when each file with a journal handle is in it
  as it was, or is gone.
\<close>

definition journals_kept :: "Storage \<Rightarrow> Storage \<Rightarrow> bool" where
  "journals_kept p q =
     (\<forall>f. Type f = TypeJournal \<longrightarrow>
          map_of (files q) f = map_of (files p) f \<or> map_of (files q) f = None)"

section \<open>Claims\<close>

subsection \<open>C1: what \<^verbatim>\<open>Get\<close> returns for a deleted key\<close>

text \<open>
  C1 says that \<^verbatim>\<open>Get\<close> returns the value of the record of the key with the largest
  sequence at or below the snapshot, and not-found when that record is a tombstone. In
  \<open>tombstone_db\<close> the newest record of \<open>k\<close> is the tombstone of sequence 2 in the active
  memtable. \<^verbatim>\<open>memGet\<close> answers \<^verbatim>\<open>false\<close> for a tombstone, as it does for a key that is
  absent, so \<^verbatim>\<open>get\<close> goes on to the frozen memtable and returns the value of sequence 1
  with no error.
\<close>

theorem Get_tombstone_returns_older_value:
  "memdb_Find (cmp (d_s tombstone_db)) (d_mem tombstone_db) (newIKey ''k'' (getSeq tombstone_db) tSeek)
     = Inr (IKey ''k'' 2 tDel, [])
   \<and> Get tombstone_db ''k'' \<lparr>RFlag = []\<rparr> = (''v'', None)"
  by (simp add: Get_def get_def ok_def isClosed_def tombstone_db_def example_db_def getSeq_def
      getMem_def memGet_def example_session_def newIKey_def tSeek_def tVal_def tDel_def
      iCompare_def parseIkey_def RHasFlag_def)

subsection \<open>C4: \<^verbatim>\<open>GetProperty\<close> and the number of files at a level\<close>

lemma HasPrefix_iff: "HasPrefix str pre = (\<exists>r. str = pre @ r)"
proof
  assume "HasPrefix str pre"
  then have "str = pre @ drop (length pre) str"
    by (metis HasPrefix_def append_take_drop_id)
  then show "\<exists>r. str = pre @ r" ..
next
  assume "\<exists>r. str = pre @ r"
  then show "HasPrefix str pre" by (auto simp: HasPrefix_def)
qed

lemma HasPrefix_append:
  "HasPrefix str (a @ b) \<Longrightarrow> HasPrefix str a \<and> HasPrefix (drop (length a) str) b"
  by (auto simp: HasPrefix_iff)

lemma HasPrefix_num_files:
  assumes "HasPrefix name ''leveldb.num-files-at-level''"
  shows "HasPrefix name ''leveldb.''"
    and "HasPrefix (drop (length ''leveldb.'') name) ''num-files-at-level''"
proof -
  from assms have "HasPrefix name (''leveldb.'' @ ''num-files-at-level'')" by simp
  from HasPrefix_append [OF this]
  show "HasPrefix name ''leveldb.''"
    and "HasPrefix (drop (length ''leveldb.'') name) ''num-files-at-level''"
    by blast+
qed

text \<open>
  C4 says that \<^verbatim>\<open>GetProperty("leveldb.num-files-at-level" + n)\<close> returns the number of
  tables at level \<open>n\<close>, the level being read from the name. The source calls
  \<^verbatim>\<open>fmt.Scanf\<close>, which reads the standard input and never looks at the name. So the
  digits of the name have no part in the answer: any two names of this property give the
  same value, and succeed or fail together. The witness runs it: with nothing on the
  standard input the call for level 0 fails though the level holds two tables, and with
  \<^verbatim>\<open>1\<close> on the standard input the same call answers for level 1.
\<close>

theorem GetProperty_ignores_level_in_name:
  assumes "HasPrefix name1 ''leveldb.num-files-at-level''"
    and "HasPrefix name2 ''leveldb.num-files-at-level''"
  shows "fst (GetProperty kNumLevels pr stdin d name1) = fst (GetProperty kNumLevels pr stdin d name2)
    \<and> (snd (GetProperty kNumLevels pr stdin d name1) = None)
        = (snd (GetProperty kNumLevels pr stdin d name2) = None)"
  using HasPrefix_num_files [OF assms(1)] HasPrefix_num_files [OF assms(2)]
  by (simp add: GetProperty_def split: option.splits prod.splits)

theorem GetProperty_ignores_level_in_name_witness:
  "HasPrefix ''leveldb.num-files-at-level0'' ''leveldb.num-files-at-level''
   \<and> HasPrefix ''leveldb.num-files-at-level1'' ''leveldb.num-files-at-level''
   \<and> tLen (s_version (d_s two_table_db)) 0 = 2
   \<and> tLen (s_version (d_s two_table_db)) 1 = 0
   \<and> GetProperty 7 plain_printers [] two_table_db ''leveldb.num-files-at-level0''
       = ([], Some (ErrInvalidProperty ''leveldb.num-files-at-level0''))
   \<and> GetProperty 7 plain_printers ''1'' two_table_db ''leveldb.num-files-at-level0''
       = (''0'', None)
   \<and> fst (GetProperty 7 plain_printers ''1'' two_table_db ''leveldb.num-files-at-level1'') = ''0''"
proof -
  have p0: "HasPrefix ''leveldb.num-files-at-level0'' ''leveldb.num-files-at-level''"
    and p1: "HasPrefix ''leveldb.num-files-at-level1'' ''leveldb.num-files-at-level''"
    by (simp_all add: HasPrefix_def)
  have e: "GetProperty 7 plain_printers ''1'' two_table_db ''leveldb.num-files-at-level0''
       = (''0'', None)"
    by (simp add: GetProperty_def ok_def isClosed_def two_table_db_def example_db_def
      HasPrefix_def fmt_Scanf_d_s_def is_blank_def is_digit_def parse_decimal_def
      digit_val_def tLen_def tables_at_def fmt_Sprint.simps)
  have f: "GetProperty 7 plain_printers [] two_table_db ''leveldb.num-files-at-level0''
       = ([], Some (ErrInvalidProperty ''leveldb.num-files-at-level0''))"
    by (simp add: GetProperty_def ok_def isClosed_def two_table_db_def example_db_def
      HasPrefix_def fmt_Scanf_d_s_def)
  have t: "tLen (s_version (d_s two_table_db)) 0 = 2" "tLen (s_version (d_s two_table_db)) 1 = 0"
    by (simp_all add: two_table_db_def example_db_def tLen_def tables_at_def)
  from GetProperty_ignores_level_in_name [OF p1 p0, of 7 plain_printers "''1''" two_table_db] e
  have "fst (GetProperty 7 plain_printers ''1'' two_table_db ''leveldb.num-files-at-level1'') = ''0''"
    by simp
  with p0 p1 e f t show ?thesis by simp
qed

subsection \<open>C10: \<^verbatim>\<open>Recover\<close> on a storage that lists no file\<close>

text \<open>
  C10 says that \<^verbatim>\<open>Recover\<close> returns a DB or an error for every storage. On a storage
  whose listing is empty (and that can be locked, without the strict flag), both loops
  run over nothing and \<^verbatim>\<open>ff[len(ff)-1]\<close> indexes an empty slice: the call panics.
\<close>

theorem Recover_empty_listing_panics:
  assumes "stor_getFiles p TypeAll = []"
    and "\<not> HasFlag o' OFStrict"
    and "map_of (s_fault p) OpLock = None"
  shows "Recover p o' = Panic ''index out of range''"
  using assms
  by (simp add: Recover_def Recover_session_def newSession_def files_sort_def s_getFiles_def)

theorem Recover_empty_listing_panics_witness:
  "stor_getFiles empty_storage TypeAll = []
   \<and> \<not> HasFlag example_options OFStrict
   \<and> map_of (s_fault empty_storage) OpLock = None
   \<and> Recover empty_storage example_options = Panic ''index out of range''"
  using Recover_empty_listing_panics [of empty_storage example_options]
  by (simp add: stor_getFiles_def empty_storage_def HasFlag_def example_options_def)

subsection \<open>C6: calls on a closed DB\<close>

text \<open>
  C6: after \<^verbatim>\<open>Close\<close> has been invoked on a DB (whether or not it was closed before,
  and whatever \<^verbatim>\<open>Close\<close> itself returned), \<^verbatim>\<open>Get\<close>, \<^verbatim>\<open>GetSnapshot\<close>,
  \<^verbatim>\<open>NewIterator\<close>, \<^verbatim>\<open>GetProperty\<close>, \<^verbatim>\<open>GetApproximateSizes\<close>, \<^verbatim>\<open>CompactRange\<close> and a
  second \<^verbatim>\<open>Close\<close> all answer with the closed error, for every argument and whatever
  else is wrong (an unknown property name, a compaction error waiting, a failing offset
  probe); \<^verbatim>\<open>NewIterator\<close> hands it out as the error of an empty iterator. None of these
  calls reopens the DB.
\<close>

theorem closed_calls_return_ErrClosed:
  fixes d0 :: DB
  defines "d \<equiv> snd (Close d0)"
  shows "Get d key ro = ([], Some ErrClosed)
    \<and> GetSnapshot d = (Inl ErrClosed, d)
    \<and> NewIterator d ro = EmptyIterator ErrClosed
    \<and> GetProperty kNumLevels pr stdin d name = ([], Some ErrClosed)
    \<and> GetApproximateSizes offsetOf d ranges = Inl ErrClosed
    \<and> CompactRange d r ev1 ev2 = Some ErrClosed
    \<and> Close d = (Some ErrClosed, d)"
proof -
  have c: "isClosed d"
    by (simp add: d_def Close_def setClosed_def isClosed_def Let_def split: option.splits)
  then have k: "ok d = Some ErrClosed" by (simp add: ok_def)
  from c have s: "setClosed d = (False, d)" by (simp add: setClosed_def isClosed_def)
  show ?thesis using k s
    by (simp add: Get_def GetSnapshot_def NewIterator_def GetProperty_def GetApproximateSizes_def
        CompactRange_def Close_def)
qed

theorem closed_calls_return_ErrClosed_witness:
  "Close example_db = (None, example_db\<lparr>d_closed := 1\<rparr>)
   \<and> Get (example_db\<lparr>d_closed := 1\<rparr>) ''k'' \<lparr>RFlag = []\<rparr> = ([], Some ErrClosed)
   \<and> GetSnapshot (example_db\<lparr>d_closed := 1\<rparr>) = (Inl ErrClosed, example_db\<lparr>d_closed := 1\<rparr>)
   \<and> NewIterator (example_db\<lparr>d_closed := 1\<rparr>) \<lparr>RFlag = []\<rparr> = EmptyIterator ErrClosed
   \<and> GetProperty 7 plain_printers [] (example_db\<lparr>d_closed := 1\<rparr>) ''no.such.property''
       = ([], Some ErrClosed)
   \<and> GetApproximateSizes (\<lambda>v k. Inl (ErrIO ''read'')) (example_db\<lparr>d_closed := 1\<rparr>)
        [\<lparr>Start = ''a'', Limit = ''b''\<rparr>] = Inl ErrClosed
   \<and> CompactRange (example_db\<lparr>d_closed := 1\<rparr>) \<lparr>Start = [], Limit = []\<rparr>
        (PushCompErr (ErrIO ''write'')) WaitDone = Some ErrClosed
   \<and> Close (example_db\<lparr>d_closed := 1\<rparr>) = (Some ErrClosed, example_db\<lparr>d_closed := 1\<rparr>)"
proof -
  have c: "Close example_db = (None, example_db\<lparr>d_closed := 1\<rparr>)"
    by (simp add: Close_def setClosed_def example_db_def)
  from closed_calls_return_ErrClosed
         [of example_db "''k''" "\<lparr>RFlag = []\<rparr>" 7 plain_printers "[]" "''no.such.property''"
             "\<lambda>v k. Inl (ErrIO ''read'')" "[\<lparr>Start = ''a'', Limit = ''b''\<rparr>]"
             "\<lparr>Start = [], Limit = []\<rparr>" "PushCompErr (ErrIO ''write'')" WaitDone]
  show ?thesis by (simp add: c)
qed

subsection \<open>C5: the flags of \<^verbatim>\<open>Open\<close>\<close>

lemma replay_edit_s_o: "s_o (replay_edit s r) = s_o s"
  by (simp add: replay_edit_def recordCommited_def)

lemma foldl_replay_edit_s_o: "s_o (foldl replay_edit s edits) = s_o s"
  by (induction edits arbitrary: s) (simp_all add: replay_edit_s_o)

lemma session_recover_s_o: "session_recover s = Inr s1 \<Longrightarrow> s_o s1 = s_o s"
  by (auto simp: session_recover_def foldl_replay_edit_s_o
      split: option.splits fileBody.splits)

lemma newSession_s_o: "newSession p o' = Inr s \<Longrightarrow> s_o s = o'"
  by (auto simp: newSession_def split: option.splits)

text \<open>
  C5, for a storage on which a session can be opened. There is no database when
  \<^verbatim>\<open>s.recover()\<close> fails with an error that \<^verbatim>\<open>os.IsNotExist\<close> accepts. Then, with
  \<^verbatim>\<open>OFCreateIfMissing\<close>, \<^verbatim>\<open>Open\<close> creates the manifest and returns the DB that \<^verbatim>\<open>openDB\<close>
  gives for the session (when the storage lets both succeed); without the flag it
  returns that error. When \<^verbatim>\<open>s.recover()\<close> succeeds there is a database, and with
  \<^verbatim>\<open>OFErrorIfExist\<close> the result is \<^verbatim>\<open>os.ErrExist\<close>.
\<close>

theorem Open_flags:
  assumes "newSession p o' = Inr s"
  shows "(session_recover s = Inl e \<and> os_IsNotExist (Some e) \<and> HasFlag o' OFCreateIfMissing
            \<and> session_create s = Inr s2 \<and> openDB s2 = Inr db \<longrightarrow> Open p o' = Inr db)
       \<and> (session_recover s = Inl e \<and> os_IsNotExist (Some e) \<and> \<not> HasFlag o' OFCreateIfMissing
            \<longrightarrow> Open p o' = Inl e)
       \<and> (session_recover s = Inr s1 \<and> HasFlag o' OFErrorIfExist \<longrightarrow> Open p o' = Inl ErrExist)"
  using assms newSession_s_o [OF assms] session_recover_s_o [of s s1]
  by (auto simp: Open_def Let_def)

theorem Open_flags_witness:
  "(\<exists>db. Open empty_storage create_options = Inr db
         \<and> d_seq db = 0 \<and> current (stor (d_s db)) = Some 0)
   \<and> HasFlag create_options OFCreateIfMissing
   \<and> Open empty_storage example_options = Inl ErrNotExist
   \<and> \<not> HasFlag example_options OFCreateIfMissing
   \<and> Open existing_storage exist_options = Inl ErrExist
   \<and> HasFlag exist_options OFErrorIfExist"
proof -
  define s0 where "s0 = projr (newSession empty_storage create_options)"
  have n0: "newSession empty_storage create_options = Inr s0"
    by (simp add: s0_def newSession_def empty_storage_def)
  have r0: "session_recover s0 = Inl ErrNotExist"
    by (simp add: s0_def newSession_def session_recover_def empty_storage_def)
  define s2 where "s2 = projr (session_create s0)"
  have c0: "session_create s0 = Inr s2"
    by (simp add: s2_def s0_def newSession_def empty_storage_def session_create_def
        newManifest_def allocFileNum_def Let_def)
  define db where "db = projr (openDB s2)"
  have v: "map_sum id (\<lambda>db. (d_seq db, current (stor (d_s db)))) (openDB s2) = Inr (0, Some 0)"
    by (simp add: s2_def s0_def newSession_def empty_storage_def create_options_def
        example_options_def HasFlag_def session_create_def newManifest_def allocFileNum_def
        file_Create_def snapshotRecord_def openDB_def recoverJournal_def
        recoverable_journals_def files_sort_def s_getFiles_def stor_getFiles_def
        GetWriteBuffer_def newMem_def flush_if_any_def cm_commit_def session_commit_def
        flushManifest_def recordCommited_def spawn_def delete_tables_def emptyRecord_def
        remove_of_def cleanFiles_def Let_def)
  then have o0: "openDB s2 = Inr db" and dv: "d_seq db = 0" "current (stor (d_s db)) = Some 0"
    by (auto simp: db_def map_sum_def split: sum.splits)
  have f1: "HasFlag create_options OFCreateIfMissing"
    by (simp add: HasFlag_def create_options_def)
  from Open_flags [OF n0, of ErrNotExist s2 db] r0 c0 o0 f1
  have a: "Open empty_storage create_options = Inr db" by simp
  define s1 where "s1 = projr (newSession empty_storage example_options)"
  have n1: "newSession empty_storage example_options = Inr s1"
    by (simp add: s1_def newSession_def empty_storage_def)
  have r1: "session_recover s1 = Inl ErrNotExist"
    by (simp add: s1_def newSession_def session_recover_def empty_storage_def)
  have f2: "\<not> HasFlag example_options OFCreateIfMissing"
    by (simp add: HasFlag_def example_options_def)
  from Open_flags [OF n1, of ErrNotExist] r1 f2
  have b: "Open empty_storage example_options = Inl ErrNotExist" by simp
  define s3 where "s3 = projr (newSession existing_storage exist_options)"
  have n3: "newSession existing_storage exist_options = Inr s3"
    by (simp add: s3_def newSession_def existing_storage_def)
  have r3: "session_recover s3 = Inr s3"
    by (simp add: s3_def newSession_def session_recover_def existing_storage_def)
  have f3: "HasFlag exist_options OFErrorIfExist"
    by (simp add: HasFlag_def exist_options_def)
  from Open_flags [OF n3, of _ _ _ s3] r3 f3
  have c: "Open existing_storage exist_options = Inl ErrExist" by simp
  from a dv b c f1 f2 f3 show ?thesis by blast
qed

subsection \<open>C8: \<^verbatim>\<open>GetApproximateSizes\<close>\<close>

lemma sizes_loop_Inr:
  "sizes_loop offsetOf v rs acc = Inr out \<Longrightarrow>
     \<exists>new. out = acc @ new \<and> length new = length rs \<and>
       (\<forall>i<length rs. \<exists>start limit.
          offsetOf v (newIKey (Start (rs ! i)) kMaxSeq tSeek) = Inr start \<and>
          offsetOf v (newIKey (Limit (rs ! i)) kMaxSeq tSeek) = Inr limit \<and>
          new ! i = (if start \<le> limit then limit - start else 0))"
proof (induction rs arbitrary: acc)
  case Nil
  then show ?case by simp
next
  case (Cons r rs)
  from Cons.prems obtain start limit where
    s: "offsetOf v (newIKey (Start r) kMaxSeq tSeek) = Inr start" and
    l: "offsetOf v (newIKey (Limit r) kMaxSeq tSeek) = Inr limit" and
    rest: "sizes_loop offsetOf v rs (acc @ [if start \<le> limit then limit - start else 0]) = Inr out"
    by (auto simp: Let_def split: sum.splits)
  from Cons.IH [OF rest] obtain new where
    n: "out = (acc @ [if start \<le> limit then limit - start else 0]) @ new"
       "length new = length rs"
       "\<forall>i<length rs. \<exists>start limit.
          offsetOf v (newIKey (Start (rs ! i)) kMaxSeq tSeek) = Inr start \<and>
          offsetOf v (newIKey (Limit (rs ! i)) kMaxSeq tSeek) = Inr limit \<and>
          new ! i = (if start \<le> limit then limit - start else 0)"
    by blast
  let ?new = "(if start \<le> limit then limit - start else 0) # new"
  have "out = acc @ ?new" using n(1) by simp
  moreover have "length ?new = length (r # rs)" using n(2) by simp
  moreover have "\<forall>i<length (r # rs). \<exists>start limit.
          offsetOf v (newIKey (Start ((r # rs) ! i)) kMaxSeq tSeek) = Inr start \<and>
          offsetOf v (newIKey (Limit ((r # rs) ! i)) kMaxSeq tSeek) = Inr limit \<and>
          ?new ! i = (if start \<le> limit then limit - start else 0)"
  proof (intro allI impI)
    fix i assume "i < length (r # rs)"
    then show "\<exists>start limit.
          offsetOf v (newIKey (Start ((r # rs) ! i)) kMaxSeq tSeek) = Inr start \<and>
          offsetOf v (newIKey (Limit ((r # rs) ! i)) kMaxSeq tSeek) = Inr limit \<and>
          ?new ! i = (if start \<le> limit then limit - start else 0)"
      using s l n(3) by (cases i) auto
  qed
  ultimately show ?case by blast
qed

lemma sizes_loop_total:
  "(\<forall>r\<in>set rs. isl (offsetOf v (newIKey (Start r) kMaxSeq tSeek)) = False
        \<and> isl (offsetOf v (newIKey (Limit r) kMaxSeq tSeek)) = False)
   \<Longrightarrow> \<exists>out. sizes_loop offsetOf v rs acc = Inr out"
  by (induction rs arbitrary: acc) (auto simp: Let_def split: sum.splits)

lemma guarded_sub_unat:
  fixes start limit :: u64
  shows "unat (if start \<le> limit then limit - start else 0) = unat limit - unat start"
  by (auto simp: unat_sub word_le_nat_alt)

text \<open>
  C8. Both boundaries of every range are probed with the internal key made of the
  boundary, \<open>kMaxSeq\<close> and the seek kind. When the call returns sizes, there is one for
  each range, in order, and each is the limit offset minus the start offset where the
  limit is not below the start, and 0 otherwise: read as natural numbers, it is the
  difference cut off at 0, so the unsigned subtraction never wraps. The call does return
  sizes whenever the DB is open and every probe succeeds.
\<close>

theorem GetApproximateSizes_sizes:
  fixes offsetOf :: "version \<Rightarrow> iKey \<Rightarrow> error + u64"
  defines "start_of \<equiv> \<lambda>d r. offsetOf (s_version (d_s d)) (newIKey (Start r) kMaxSeq tSeek)"
  defines "limit_of \<equiv> \<lambda>d r. offsetOf (s_version (d_s d)) (newIKey (Limit r) kMaxSeq tSeek)"
  shows "(GetApproximateSizes offsetOf d ranges = Inr sizes \<longrightarrow>
            length sizes = length ranges \<and>
            (\<forall>i<length ranges. \<exists>start limit.
               start_of d (ranges ! i) = Inr start \<and> limit_of d (ranges ! i) = Inr limit \<and>
               sizes ! i = (if start \<le> limit then limit - start else 0) \<and>
               unat (sizes ! i) = unat limit - unat start))
       \<and> (\<not> isClosed d \<and> (\<forall>r\<in>set ranges. \<not> isl (start_of d r) \<and> \<not> isl (limit_of d r)) \<longrightarrow>
            (\<exists>out. GetApproximateSizes offsetOf d ranges = Inr out))"
proof (intro conjI impI)
  assume a: "GetApproximateSizes offsetOf d ranges = Inr sizes"
  then have "sizes_loop offsetOf (s_version (d_s d)) ranges [] = Inr sizes"
    by (simp add: GetApproximateSizes_def split: option.splits)
  from sizes_loop_Inr [OF this]
  have len: "length sizes = length ranges"
    and each: "\<forall>i<length ranges. \<exists>start limit.
          start_of d (ranges ! i) = Inr start \<and> limit_of d (ranges ! i) = Inr limit \<and>
          sizes ! i = (if start \<le> limit then limit - start else 0)"
    by (auto simp: start_of_def limit_of_def)
  show "length sizes = length ranges" by (rule len)
  show "\<forall>i<length ranges. \<exists>start limit.
               start_of d (ranges ! i) = Inr start \<and> limit_of d (ranges ! i) = Inr limit \<and>
               sizes ! i = (if start \<le> limit then limit - start else 0) \<and>
               unat (sizes ! i) = unat limit - unat start"
  proof (intro allI impI)
    fix i assume "i < length ranges"
    with each obtain start limit where
      e: "start_of d (ranges ! i) = Inr start" "limit_of d (ranges ! i) = Inr limit"
         "sizes ! i = (if start \<le> limit then limit - start else 0)"
      by blast
    from e(3) have "unat (sizes ! i) = unat limit - unat start"
      by (simp only: guarded_sub_unat)
    with e show "\<exists>start limit.
               start_of d (ranges ! i) = Inr start \<and> limit_of d (ranges ! i) = Inr limit \<and>
               sizes ! i = (if start \<le> limit then limit - start else 0) \<and>
               unat (sizes ! i) = unat limit - unat start"
      by blast
  qed
next
  assume "\<not> isClosed d \<and> (\<forall>r\<in>set ranges. \<not> isl (start_of d r) \<and> \<not> isl (limit_of d r))"
  then have o: "ok d = None"
    and p: "\<forall>r\<in>set ranges. isl (offsetOf (s_version (d_s d)) (newIKey (Start r) kMaxSeq tSeek)) = False
        \<and> isl (offsetOf (s_version (d_s d)) (newIKey (Limit r) kMaxSeq tSeek)) = False"
    by (auto simp: ok_def start_of_def limit_of_def)
  from sizes_loop_total [where rs = ranges and offsetOf = offsetOf
           and v = "s_version (d_s d)" and acc = "[]"] p o
  show "\<exists>out. GetApproximateSizes offsetOf d ranges = Inr out"
    by (simp add: GetApproximateSizes_def)
qed

theorem GetApproximateSizes_sizes_witness:
  "GetApproximateSizes length_offsets example_db example_ranges = Inr [20, 0]
   \<and> length [20, 0 :: u64] = length example_ranges
   \<and> \<not> isClosed example_db
   \<and> length_offsets (s_version (d_s example_db)) (newIKey (Start (example_ranges ! 1)) kMaxSeq tSeek) = Inr 30
   \<and> length_offsets (s_version (d_s example_db)) (newIKey (Limit (example_ranges ! 1)) kMaxSeq tSeek) = Inr 10
   \<and> unat ([20, 0 :: u64] ! 1) = unat (10 :: u64) - unat (30 :: u64)"
proof -
  have e: "GetApproximateSizes length_offsets example_db example_ranges = Inr [20, 0]"
    by (simp add: GetApproximateSizes_def ok_def isClosed_def example_db_def example_ranges_def
        length_offsets_def newIKey_def)
  have o: "\<not> isClosed example_db" by (simp add: isClosed_def example_db_def)
  from GetApproximateSizes_sizes [of length_offsets example_db example_ranges "[20, 0]"] e o
  show ?thesis
    by (simp add: example_ranges_def length_offsets_def newIKey_def)
qed

subsection \<open>C9: \<^verbatim>\<open>SetMaxOpenFiles\<close> and the table cache\<close>

lemma SetBlockCache_purges:
  "valid c \<Longrightarrow> cached (tops_cache (snd (SetBlockCache valid s c))) = []"
  by (simp add: SetBlockCache_def opt_SetBlockCache_def cache_Purge_def)

text \<open>
  C9: for every DB and every capacity the options accept, \<^verbatim>\<open>SetMaxOpenFiles\<close> called on
  the DB's options setter succeeds, records the capacity in the options, makes it the
  capacity of the table cache and leaves no handle in that cache; nothing else of the
  session changes. A capacity the options refuse changes nothing. The source calls
  \<^verbatim>\<open>SetCapacity\<close> on the table cache; that it purges is section 5 of the spec.
\<close>

theorem SetMaxOpenFiles_purges_table_cache:
  "(valid mx \<longrightarrow>
      SetMaxOpenFiles valid (GetOptionsSetter d) mx
        = (None, (d_s d)\<lparr>s_o := (s_o (d_s d))\<lparr>MaxOpenFiles := mx\<rparr>,
                         tops_cache := \<lparr>capacity = mx, cached = []\<rparr>\<rparr>)
      \<and> (\<forall>h\<in>set (cached (tops_cache (d_s d))).
            h \<notin> set (cached (tops_cache (snd (SetMaxOpenFiles valid (GetOptionsSetter d) mx))))))
   \<and> (\<not> valid mx \<longrightarrow>
        SetMaxOpenFiles valid (GetOptionsSetter d) mx = (Some ErrInvalid, d_s d))"
  by (simp add: SetMaxOpenFiles_def opt_SetMaxOpenFiles_def cache_SetCapacity_def
      cache_Purge_def GetOptionsSetter_def)

theorem SetMaxOpenFiles_purges_table_cache_witness:
  "(0::int) < 500
   \<and> cached (tops_cache (d_s busy_db)) = [7, 3]
   \<and> fst (SetMaxOpenFiles (\<lambda>n. 0 < n) (GetOptionsSetter busy_db) 500) = None
   \<and> MaxOpenFiles (s_o (snd (SetMaxOpenFiles (\<lambda>n. 0 < n) (GetOptionsSetter busy_db) 500))) = 500
   \<and> tops_cache (snd (SetMaxOpenFiles (\<lambda>n. 0 < n) (GetOptionsSetter busy_db) 500))
       = \<lparr>capacity = 500, cached = []\<rparr>
   \<and> \<not> (0::int) < - 1
   \<and> SetMaxOpenFiles (\<lambda>n. 0 < n) (GetOptionsSetter busy_db) (- 1) = (Some ErrInvalid, d_s busy_db)"
  using SetMaxOpenFiles_purges_table_cache [of "\<lambda>n. 0 < n" 500 busy_db]
        SetMaxOpenFiles_purges_table_cache [of "\<lambda>n. 0 < n" "- 1" busy_db]
  by (simp add: busy_db_def busy_session_def example_db_def)

subsection \<open>Facts about \<^verbatim>\<open>Recover\<close> shared by C2 and C7\<close>

lemma files_sort_set: "set (files_sort ff) = set ff"
  by (simp add: files_sort_def)

lemma files_sort_Nil: "(files_sort ff = []) = (ff = [])"
  by (metis files_sort_set set_empty)

lemma sorted_le_last: "sorted xs \<Longrightarrow> x \<in> set xs \<Longrightarrow> x \<le> last xs"
  for xs :: "nat list"
  by (induction xs) (auto split: if_splits)

lemma files_sort_last_max:
  assumes "f \<in> set ff"
  shows "Num f \<le> Num (last (files_sort ff))"
proof -
  let ?k = "\<lambda>f. unat (Num f)"
  have ne: "files_sort ff \<noteq> []" using assms files_sort_Nil by fastforce
  have "sorted (map ?k (files_sort ff))" by (simp add: files_sort_def)
  moreover have "?k f \<in> set (map ?k (files_sort ff))" using assms by (simp add: files_sort_set)
  ultimately have "?k f \<le> last (map ?k (files_sort ff))" by (rule sorted_le_last)
  also have "\<dots> = ?k (last (files_sort ff))" using ne by (simp add: last_map)
  finally show ?thesis by (simp add: word_le_nat_alt)
qed

lemma getFiles_file_Create:
  "set (stor_getFiles (file_Create p f b) TypeAll) \<subseteq> insert f (set (stor_getFiles p TypeAll))"
  by (auto simp: file_Create_def stor_getFiles_def)

lemma getFiles_current_update [simp]:
  "stor_getFiles (p\<lparr>current := c\<rparr>) sel = stor_getFiles p sel"
  by (simp add: stor_getFiles_def split: TypeSel.splits)

lemma newManifest_Inr:
  assumes "newManifest s = Inr s'"
  shows "stFileNum s' = stFileNum s + 1"
    and "manifest s' = Some (stFileNum s)"
    and "set (stor_getFiles (stor s') TypeAll)
           \<subseteq> insert \<lparr>Num = stFileNum s, Type = TypeManifest\<rparr> (set (stor_getFiles (stor s) TypeAll))"
    and "stSeq s' = stSeq s"
proof -
  let ?f = "\<lparr>Num = stFileNum s, Type = TypeManifest\<rparr>"
  from assms obtain b where
    e: "s' = s\<lparr>stFileNum := stFileNum s + 1,
               stor := (file_Create (stor s) ?f b)\<lparr>current := Some (stFileNum s)\<rparr>,
               manifest := Some (stFileNum s)\<rparr>"
    by (auto simp: newManifest_def allocFileNum_def Let_def split: option.splits)
  show "stFileNum s' = stFileNum s + 1" by (simp add: e)
  show "manifest s' = Some (stFileNum s)" by (simp add: e)
  show "stSeq s' = stSeq s" by (simp add: e)
  show "set (stor_getFiles (stor s') TypeAll) \<subseteq> insert ?f (set (stor_getFiles (stor s) TypeAll))"
    using getFiles_file_Create [of "stor s" ?f b] by (simp add: e)
qed

lemma flushManifest_Inr:
  assumes "flushManifest s r = Inr s'" and "manifest s = Some n"
  shows "\<exists>b. s' = s\<lparr>stor := file_Create (stor s) \<lparr>Num = n, Type = TypeManifest\<rparr> b\<rparr>"
  using assms by (auto simp: flushManifest_def Let_def split: option.splits)

lemma session_commit_Inr:
  assumes "session_commit s r = Inr s'" and "manifest s = Some n"
  shows "stFileNum s' = stFileNum s"
    and "set (stor_getFiles (stor s') TypeAll)
           \<subseteq> insert \<lparr>Num = n, Type = TypeManifest\<rparr> (set (stor_getFiles (stor s) TypeAll))"
    and "stSeq s' = (case r_seq r of Some n \<Rightarrow> n | None \<Rightarrow> stSeq s)"
proof -
  from assms obtain s1 where f: "flushManifest s r = Inr s1" and e: "s' = recordCommited s1 r"
    by (auto simp: session_commit_def split: sum.splits)
  from flushManifest_Inr [OF f assms(2)] obtain b where
    s1: "s1 = s\<lparr>stor := file_Create (stor s) \<lparr>Num = n, Type = TypeManifest\<rparr> b\<rparr>" by blast
  show "stFileNum s' = stFileNum s" by (simp add: e s1 recordCommited_def)
  show "stSeq s' = (case r_seq r of Some n \<Rightarrow> n | None \<Rightarrow> stSeq s)"
    by (simp add: e s1 recordCommited_def split: option.splits)
  show "set (stor_getFiles (stor s') TypeAll)
          \<subseteq> insert \<lparr>Num = n, Type = TypeManifest\<rparr> (set (stor_getFiles (stor s) TypeAll))"
    using getFiles_file_Create [of "stor s" "\<lparr>Num = n, Type = TypeManifest\<rparr>" b]
    by (simp add: e s1 recordCommited_def)
qed

lemma Recover_session_Ok:
  assumes "Recover_session p o' = Ok s"
  obtains s0 r nt s2 where
    "newSession p o' = Inr s0"
    "files_sort (s_getFiles s0 TypeAll) \<noteq> []"
    "recover_tables s0 (files_sort (s_getFiles s0 TypeAll)) (emptyRecord, None) = Inr (r, nt)"
    "session_create (s0\<lparr>stFileNum := Num (last (files_sort (s_getFiles s0 TypeAll))) + 1\<rparr>) = Inr s2"
    "session_commit s2
       (case nt of None \<Rightarrow> r
        | Some t \<Rightarrow> setSeq r (largest_seq (iter_keys (tops_newIterator (stor s0) t)) 0)) = Inr s"
  using assms
  by (auto simp: Recover_session_def Let_def split: if_splits sum.splits option.splits)

lemma newSession_Inr:
  assumes "newSession p o' = Inr s0"
  shows "stor s0 = p" and "stSeq s0 = 0" and "s_o s0 = o'"
  using assms by (auto simp: newSession_def split: option.splits)

lemma Recover_session_state:
  assumes "Recover_session p o' = Ok s"
  defines "mx \<equiv> Num (last (files_sort (stor_getFiles p TypeAll)))"
  shows "files_sort (stor_getFiles p TypeAll) \<noteq> []"
    and "stFileNum s = mx + 1 + 1"
    and "set (stor_getFiles (stor s) TypeAll)
           \<subseteq> insert \<lparr>Num = mx + 1, Type = TypeManifest\<rparr> (set (stor_getFiles p TypeAll))"
proof -
  from assms(1) obtain s0 r nt s2 where
    n: "newSession p o' = Inr s0" and
    ne: "files_sort (s_getFiles s0 TypeAll) \<noteq> []" and
    c: "session_create (s0\<lparr>stFileNum := Num (last (files_sort (s_getFiles s0 TypeAll))) + 1\<rparr>) = Inr s2" and
    m: "session_commit s2
       (case nt of None \<Rightarrow> r
        | Some t \<Rightarrow> setSeq r (largest_seq (iter_keys (tops_newIterator (stor s0) t)) 0)) = Inr s"
    by (rule Recover_session_Ok)
  let ?f0 = "\<lparr>Num = mx + 1, Type = TypeManifest\<rparr>"
  from n have st: "stor s0 = p" by (rule newSession_Inr)
  then have ff: "files_sort (s_getFiles s0 TypeAll) = files_sort (stor_getFiles p TypeAll)"
    by (simp add: s_getFiles_def)
  from ne ff show "files_sort (stor_getFiles p TypeAll) \<noteq> []" by simp
  from c have c': "newManifest (s0\<lparr>stFileNum := mx + 1\<rparr>) = Inr s2"
    by (simp add: session_create_def ff mx_def)
  from newManifest_Inr [OF c'] st
  have n2: "stFileNum s2 = mx + 1 + 1" and m2: "manifest s2 = Some (mx + 1)"
    and f2: "set (stor_getFiles (stor s2) TypeAll) \<subseteq> insert ?f0 (set (stor_getFiles p TypeAll))"
    by simp_all
  from session_commit_Inr [OF m m2] n2 f2
  show "stFileNum s = mx + 1 + 1"
    and "set (stor_getFiles (stor s) TypeAll) \<subseteq> insert ?f0 (set (stor_getFiles p TypeAll))"
    by auto
qed

subsection \<open>C2: the sequence \<^verbatim>\<open>Recover\<close> starts from\<close>

lemma largest_seq_fold: "largest_seq ks l = fold max (parsable_seqs ks) l"
  by (induction ks arbitrary: l)
     (auto simp: parsable_seqs_def parseNum_def max_def)

lemma largest_seq_Max: "largest_seq ks l = Max (set (l # parsable_seqs ks))"
  by (simp only: largest_seq_fold Max.set_eq_fold)

lemma iter_First_True:
  assumes "iter_First (tops_newIterator p t) = (True, k, e)"
  shows "\<exists>td. map_of (files p) (t_file t) = Some (TableBody td) \<and> t_entries td \<noteq> []"
  using assms
  by (auto simp: tops_newIterator_def split: option.splits fileBody.splits list.splits)

lemma iter_First_False:
  assumes "iter_First (tops_newIterator p t) = (False, k, None)"
  shows "\<exists>td. map_of (files p) (t_file t) = Some (TableBody td) \<and> t_entries td = []"
  using assms
  by (auto simp: tops_newIterator_def split: option.splits fileBody.splits list.splits)

lemma iter_Last_False:
  assumes "iter_Last (tops_newIterator p t) = (False, k, None)"
  shows "\<exists>td. map_of (files p) (t_file t) = Some (TableBody td) \<and> t_entries td = []"
  using assms
  by (auto simp: tops_newIterator_def split: option.splits fileBody.splits if_splits)

lemma iter_keys_table_keys: "iter_keys (tops_newIterator p t) = table_keys p (t_file t)"
  by (auto simp: tops_newIterator_def table_keys_def split: option.splits fileBody.splits)

lemma nonempty_tables_Cons:
  "nonempty_tables p (f # ff) =
     (if Type f = TypeTable \<and>
         (case map_of (files p) f of Some (TableBody td) \<Rightarrow> t_entries td \<noteq> [] | _ \<Rightarrow> False)
      then f # nonempty_tables p ff else nonempty_tables p ff)"
  by (simp add: nonempty_tables_def)

lemma recover_tables_newest:
  "recover_tables s ff (r, nt) = Inr (r', nt') \<Longrightarrow>
     r_seq r' = r_seq r \<and>
     map_option t_file nt' =
       (case nonempty_tables (stor s) ff of
          [] \<Rightarrow> map_option t_file nt
        | g # gs \<Rightarrow> Some (last (g # gs)))"
proof (induction ff arbitrary: r nt)
  case Nil
  then show ?case by (simp add: nonempty_tables_def)
next
  case (Cons f ff)
  show ?case
  proof (cases "Type f = TypeTable")
    case False
    with Cons.prems have "recover_tables s ff (r, nt) = Inr (r', nt')" by simp
    from Cons.IH [OF this] False show ?thesis by (simp add: nonempty_tables_Cons)
  next
    case True
    from Cons.prems True obtain sz where sz: "file_Size (stor s) f = Inr sz"
      by (auto split: sum.splits)
    let ?t = "newTFile f sz None None"
    let ?it = "tops_newIterator (stor s) ?t"
    have tf: "t_file ?t = f" by (simp add: newTFile_def)
    obtain b1 k1 e1 where f1: "iter_First ?it = (b1, k1, e1)" by (cases "iter_First ?it") auto
    obtain b2 k2 e2 where l1: "iter_Last ?it = (b2, k2, e2)" by (cases "iter_Last ?it") auto
    show ?thesis
    proof (cases b1)
      case first: True
      from iter_First_True [of "stor s" ?t k1 e1] f1 first tf obtain td where
        td: "map_of (files (stor s)) f = Some (TableBody td)" "t_entries td \<noteq> []"
        by auto
      show ?thesis
      proof (cases b2)
        case last: True
        let ?t' = "?t\<lparr>t_min := k1, t_max := k2\<rparr>"
        from Cons.prems True sz f1 l1 first last
        have "recover_tables s ff (addTableFile r 0 ?t', Some ?t') = Inr (r', nt')"
          by (simp add: Let_def)
        from Cons.IH [OF this] True td
        show ?thesis
          by (simp add: nonempty_tables_Cons addTableFile_def newTFile_def split: list.splits)
      next
        case nolast: False
        from Cons.prems True sz f1 l1 first nolast have "e2 = None"
          by (auto simp: Let_def split: option.splits)
        with iter_Last_False [of "stor s" ?t k2] l1 nolast tf td show ?thesis by auto
      qed
    next
      case nofirst: False
      from Cons.prems True sz f1 nofirst have e1: "e1 = None"
        by (auto simp: Let_def split: option.splits)
      with Cons.prems True sz f1 nofirst
      have rest: "recover_tables s ff (r, nt) = Inr (r', nt')" by (simp add: Let_def)
      from iter_First_False [of "stor s" ?t k1] f1 nofirst e1 tf obtain td where
        "map_of (files (stor s)) f = Some (TableBody td)" "t_entries td = []" by auto
      with Cons.IH [OF rest] show ?thesis by (simp add: nonempty_tables_Cons)
    qed
  qed
qed

lemma Recover_session_stSeq:
  assumes "Recover_session p o' = Ok s"
  shows "stSeq s = newest_table_seq p"
proof -
  from assms obtain s0 r nt s2 where
    n: "newSession p o' = Inr s0" and
    t: "recover_tables s0 (files_sort (s_getFiles s0 TypeAll)) (emptyRecord, None) = Inr (r, nt)" and
    c: "session_create (s0\<lparr>stFileNum := Num (last (files_sort (s_getFiles s0 TypeAll))) + 1\<rparr>) = Inr s2" and
    m: "session_commit s2
       (case nt of None \<Rightarrow> r
        | Some t \<Rightarrow> setSeq r (largest_seq (iter_keys (tops_newIterator (stor s0) t)) 0)) = Inr s"
    by (rule Recover_session_Ok)
  from newSession_Inr [OF n] have st: "stor s0 = p" and sq: "stSeq s0 = 0" by simp_all
  from c have c': "newManifest (s0\<lparr>stFileNum := Num (last (files_sort (s_getFiles s0 TypeAll))) + 1\<rparr>) = Inr s2"
    by (simp add: session_create_def)
  from newManifest_Inr [OF c'] sq
  have m2: "manifest s2 = Some (Num (last (files_sort (s_getFiles s0 TypeAll))) + 1)"
    and q2: "stSeq s2 = 0" by simp_all
  from recover_tables_newest [OF t] st
  have rs: "r_seq r = None"
    and nw: "map_option t_file nt =
       (case nonempty_tables p (files_sort (stor_getFiles p TypeAll)) of
          [] \<Rightarrow> None | g # gs \<Rightarrow> Some (last (g # gs)))"
    by (simp_all add: emptyRecord_def s_getFiles_def split: list.splits)
  show ?thesis
  proof (cases nt)
    case None
    with nw have "nonempty_tables p (files_sort (stor_getFiles p TypeAll)) = []"
      by (simp split: list.splits)
    moreover from session_commit_Inr(3) [OF m m2] None rs q2 have "stSeq s = 0" by simp
    ultimately show ?thesis by (simp add: newest_table_seq_def)
  next
    case (Some t)
    with nw obtain g gs where
      g: "nonempty_tables p (files_sort (stor_getFiles p TypeAll)) = g # gs"
         "t_file t = last (g # gs)"
      by (auto split: list.splits)
    from session_commit_Inr(3) [OF m m2] Some
    have "stSeq s = largest_seq (iter_keys (tops_newIterator (stor s0) t)) 0"
      by (simp add: setSeq_def)
    also have "\<dots> = Max (set (0 # parsable_seqs (table_keys p (last (g # gs)))))"
      by (simp only: largest_seq_Max iter_keys_table_keys st g(2))
    finally show ?thesis by (simp add: newest_table_seq_def g(1))
  qed
qed

lemma no_journal_files:
  assumes "\<forall>f\<in>set (stor_getFiles p TypeAll). Type f \<noteq> TypeJournal"
  shows "stor_getFiles p (TypeOnly TypeJournal) = []"
  using assms by (auto simp: stor_getFiles_def filter_empty_conv)

lemma recoverable_journals_Nil:
  "stor_getFiles (stor s) (TypeOnly TypeJournal) = [] \<Longrightarrow> recoverable_journals s = []"
  by (simp add: recoverable_journals_def s_getFiles_def files_sort_def)

lemma newMem_Inr:
  assumes "newMem d = Inr d1"
  shows "d_seq d1 = d_seq d"
  using assms by (auto simp: newMem_def allocFileNum_def Let_def split: option.splits)

lemma recoverJournal_no_journals:
  assumes "recoverJournal d = Inr d'" and "recoverable_journals (d_s d) = []"
  shows "d_seq d' = d_seq d"
proof -
  from assms obtain d1 s2 f where
    "newMem d = Inr d1" and "d' = d1\<lparr>d_s := remove_of s2 f\<rparr>"
    by (auto simp: recoverJournal_def Let_def split: sum.splits)
  with newMem_Inr [of d d1] show ?thesis by simp
qed

lemma openDB_no_journals:
  assumes "openDB s = Inr db" and "recoverable_journals s = []"
  shows "d_seq db = stSeq s"
proof -
  from assms(1) obtain d' where
    r: "recoverJournal \<lparr>d_seq = stSeq s, d_s = s, d_mem = [], d_frozenMem = None,
                d_journalFile = None, d_frozenJournalFile = None, d_frozenSeq = 0,
                d_compErr = None, d_compStats = [], d_snaps = [], d_closed = 0,
                d_closer = None\<rparr> = Inr d'" and db: "db = cleanFiles d'"
    by (auto simp: openDB_def Let_def split: sum.splits)
  from recoverJournal_no_journals [OF r] assms(2) have "d_seq d' = stSeq s" by simp
  then show ?thesis by (simp add: db cleanFiles_def Let_def)
qed

lemma Recover_session_two_tables:
  "(case Recover_session two_tables_storage example_options of
      Ok s \<Rightarrow> stFileNum s = 4 \<and> stSeq s = 3
    | _ \<Rightarrow> False)"
  by (simp add: Recover_session_def two_tables_storage_def example_options_def HasFlag_def
      newSession_def files_sort_def s_getFiles_def stor_getFiles_def file_Size_def
      tops_newIterator_def newTFile_def addTableFile_def emptyRecord_def setSeq_def
      parseNum_def tVal_def session_create_def newManifest_def allocFileNum_def
      file_Create_def snapshotRecord_def session_commit_def flushManifest_def
      recordCommited_def spawn_def delete_tables_def add_table_def table_of_added_def Let_def)

lemma Recover_two_tables:
  "(case Recover two_tables_storage example_options of
      Ok db \<Rightarrow> d_seq db = 3
    | _ \<Rightarrow> False)"
  by (simp add: Recover_def Recover_session_def two_tables_storage_def example_options_def
      HasFlag_def newSession_def files_sort_def s_getFiles_def stor_getFiles_def
      file_Size_def tops_newIterator_def newTFile_def addTableFile_def emptyRecord_def
      setSeq_def parseNum_def tVal_def session_create_def newManifest_def allocFileNum_def
      file_Create_def snapshotRecord_def session_commit_def flushManifest_def
      recordCommited_def spawn_def delete_tables_def add_table_def table_of_added_def
      openDB_def recoverJournal_def recoverable_journals_def GetWriteBuffer_def newMem_def
      flush_if_any_def cm_commit_def remove_of_def cleanFiles_def Let_def)

text \<open>
  What the source does: the manifest that \<^verbatim>\<open>Recover\<close> commits carries, as last sequence,
  the largest sequence among the keys that parse of the newest table that holds an entry
  (the table file of the largest number), and 0 when no table holds an entry;
  \<^verbatim>\<open>openDB\<close> starts the DB from it. When the storage holds no journal file nothing is
  replayed, and this is the last sequence of the DB that \<^verbatim>\<open>Recover\<close> returns.
\<close>

lemma Recover_seq_is_newest_table_seq:
  "(Recover_session p o' = Ok s \<longrightarrow> stSeq s = newest_table_seq p)
   \<and> (Recover p o' = Ok db \<and> (\<forall>f\<in>set (stor_getFiles p TypeAll). Type f \<noteq> TypeJournal)
        \<longrightarrow> d_seq db = newest_table_seq p)"
proof (intro conjI impI)
  assume "Recover_session p o' = Ok s"
  then show "stSeq s = newest_table_seq p" by (rule Recover_session_stSeq)
next
  assume a: "Recover p o' = Ok db \<and> (\<forall>f\<in>set (stor_getFiles p TypeAll). Type f \<noteq> TypeJournal)"
  then obtain s' where s: "Recover_session p o' = Ok s'" and o: "openDB s' = Inr db"
    by (auto simp: Recover_def split: outcome.splits sum.splits)
  from Recover_session_state(3) [OF s] a
  have "\<forall>f\<in>set (stor_getFiles (stor s') TypeAll). Type f \<noteq> TypeJournal" by auto
  then have "recoverable_journals s' = []"
    by (intro recoverable_journals_Nil no_journal_files)
  from openDB_no_journals [OF o this] Recover_session_stSeq [OF s]
  show "d_seq db = newest_table_seq p" by simp
qed

text \<open>
  C2: after \<^verbatim>\<open>Recover\<close> the last sequence of the DB should be the largest sequence over
  the records of all the tables scanned, so that the next write gets a larger one. The
  source reads the sequences of one table only, the newest ("extract largest seq number
  from newest table"). On \<open>two_tables_storage\<close>, where the older table 1 holds \<open>a\<close> under
  sequence 9 and the newer table 2 holds \<open>b\<close> under sequence 3, \<^verbatim>\<open>Recover\<close> installs both
  tables at level 0 and starts the DB from 3, below 9: \<^verbatim>\<open>Get\<close> does not find \<open>a\<close>, which
  the DB holds, and the next write is given sequence 4.
\<close>

theorem Recover_seq_below_older_table:
  "(case Recover two_tables_storage example_options of
      Ok db \<Rightarrow>
        d_seq db = 3
        \<and> map (\<lambda>t. Num (t_file t)) (tables_at (s_version (d_s db)) 0) = [1, 2]
        \<and> Get db ''a'' \<lparr>RFlag = []\<rparr> = ([], Some ErrNotFound)
        \<and> Get (db\<lparr>d_seq := 9\<rparr>) ''a'' \<lparr>RFlag = []\<rparr> = (''x'', None)
    | _ \<Rightarrow> False)
   \<and> newest_table_seq two_tables_storage = 3
   \<and> all_tables_seq two_tables_storage = 9"
proof -
  have "all_tables_seq two_tables_storage = 9"
    by (simp add: all_tables_seq_def two_tables_storage_def stor_getFiles_def table_keys_def
        parsable_seqs_def tVal_def)
  moreover have "newest_table_seq two_tables_storage = 3"
    by (simp add: newest_table_seq_def nonempty_tables_def files_sort_def stor_getFiles_def
        two_tables_storage_def table_keys_def parsable_seqs_def tVal_def)
  moreover have "(case Recover two_tables_storage example_options of
      Ok db \<Rightarrow>
        d_seq db = 3
        \<and> map (\<lambda>t. Num (t_file t)) (tables_at (s_version (d_s db)) 0) = [1, 2]
        \<and> Get db ''a'' \<lparr>RFlag = []\<rparr> = ([], Some ErrNotFound)
        \<and> Get (db\<lparr>d_seq := 9\<rparr>) ''a'' \<lparr>RFlag = []\<rparr> = (''x'', None)
    | _ \<Rightarrow> False)"
    by (simp add: Recover_def Recover_session_def two_tables_storage_def example_options_def
      HasFlag_def newSession_def files_sort_def s_getFiles_def stor_getFiles_def
      file_Size_def tops_newIterator_def newTFile_def addTableFile_def emptyRecord_def
      setSeq_def parseNum_def tVal_def session_create_def newManifest_def allocFileNum_def
      file_Create_def snapshotRecord_def session_commit_def flushManifest_def
      recordCommited_def spawn_def delete_tables_def add_table_def table_of_added_def
      openDB_def recoverJournal_def recoverable_journals_def GetWriteBuffer_def newMem_def
      flush_if_any_def cm_commit_def remove_of_def cleanFiles_def Let_def tables_at_def
      Get_def get_def ok_def isClosed_def getSeq_def getMem_def memGet_def version_get_def
      level0_candidates_def covers_def tops_get_def parseIkey_def tSeek_def tDel_def
      RHasFlag_def newIKey_def iCompare_def)
  ultimately show ?thesis by simp
qed

subsection \<open>C7: the next file number after \<^verbatim>\<open>Recover\<close>\<close>

lemma unat_plus_1:
  fixes mx :: u64
  assumes "unat mx + 2 < 2 ^ 64"
  shows "unat (mx + 1) = unat mx + 1" and "unat (mx + 1 + 1) = unat mx + 2"
proof -
  from assms have "unat mx + unat (1 :: u64) < 2 ^ LENGTH(64)" by simp
  then have a: "unat (mx + 1) = unat mx + unat (1 :: u64)" by (simp only: unat_add_lem)
  then show b: "unat (mx + 1) = unat mx + 1" by simp
  from assms b have "unat (mx + 1) + unat (1 :: u64) < 2 ^ LENGTH(64)" by simp
  then have "unat (mx + 1 + 1) = unat (mx + 1) + unat (1 :: u64)" by (simp only: unat_add_lem)
  with b show "unat (mx + 1 + 1) = unat mx + 2" by simp
qed

lemma next_number_above:
  fixes mx n :: u64
  assumes "unat mx + 2 < 2 ^ 64" and "n \<le> mx + 1"
  shows "n < mx + 1 + 1"
  using assms(2) unat_plus_1 [OF assms(1)] by (simp add: word_le_nat_alt word_less_nat_alt)

lemma le_next_number:
  fixes mx n :: u64
  assumes "unat mx + 2 < 2 ^ 64" and "n \<le> mx"
  shows "n \<le> mx + 1"
  using assms(2) unat_plus_1 [OF assms(1)] by (simp add: word_le_nat_alt)

text \<open>
  C7 says that the next file number exceeds every file number on the storage once
  \<^verbatim>\<open>Recover\<close> has committed its manifest. File numbers are \<^verbatim>\<open>uint64\<close> and
  \<^verbatim>\<open>ff[len(ff)-1].Num() + 1\<close> wraps around: with a file of the largest number the new
  manifest is numbered 0 and the next file number is 1.
\<close>

theorem Recover_next_file_number_wraps:
  "(case Recover_session wrap_storage example_options of
      Ok s \<Rightarrow> stFileNum s = 1 \<and> map Num (stor_getFiles (stor s) TypeAll) = [- 1, 0]
    | _ \<Rightarrow> False)"
  by (simp add: Recover_session_def wrap_storage_def example_options_def HasFlag_def
      newSession_def files_sort_def s_getFiles_def stor_getFiles_def file_Size_def
      tops_newIterator_def newTFile_def addTableFile_def emptyRecord_def setSeq_def
      parseNum_def tVal_def session_create_def newManifest_def allocFileNum_def
      file_Create_def snapshotRecord_def session_commit_def flushManifest_def
      recordCommited_def spawn_def delete_tables_def add_table_def table_of_added_def Let_def)

text \<open>
  C7 as amended: when every file number on the storage is below \<open>2^64 - 2\<close>, the session
  that \<^verbatim>\<open>Recover\<close> hands to \<^verbatim>\<open>openDB\<close>, after the commit of the new manifest, has a next
  file number above the number of every file then on the storage, the new manifest
  included.
\<close>

theorem Recover_next_file_number:
  assumes ok: "Recover_session p o' = Ok s"
    and small: "\<forall>f\<in>set (stor_getFiles p TypeAll). unat (Num f) + 2 < 2 ^ 64"
  shows "\<forall>f\<in>set (stor_getFiles (stor s) TypeAll). Num f < stFileNum s"
proof -
  let ?ff = "files_sort (stor_getFiles p TypeAll)"
  let ?mx = "Num (last ?ff)"
  let ?f0 = "\<lparr>Num = ?mx + 1, Type = TypeManifest\<rparr>"
  from Recover_session_state [OF ok]
  have ne: "?ff \<noteq> []" and n3: "stFileNum s = ?mx + 1 + 1"
    and f3: "set (stor_getFiles (stor s) TypeAll) \<subseteq> insert ?f0 (set (stor_getFiles p TypeAll))"
    by simp_all
  from ne have "last ?ff \<in> set ?ff" by simp
  then have "last ?ff \<in> set (stor_getFiles p TypeAll)" by (simp add: files_sort_set)
  with small have sm: "unat ?mx + 2 < 2 ^ 64" by blast
  show ?thesis
  proof
    fix f assume "f \<in> set (stor_getFiles (stor s) TypeAll)"
    with f3 consider "f = ?f0" | "f \<in> set (stor_getFiles p TypeAll)" by blast
    then have "Num f \<le> ?mx + 1"
    proof cases
      case 1
      then show ?thesis by simp
    next
      case 2
      then have "Num f \<le> ?mx" by (rule files_sort_last_max)
      with sm show ?thesis by (rule le_next_number)
    qed
    with sm show "Num f < stFileNum s" unfolding n3 by (rule next_number_above)
  qed
qed

theorem Recover_next_file_number_witness:
  "\<exists>s. Recover_session two_tables_storage example_options = Ok s
     \<and> stFileNum s = 4
     \<and> list_all (\<lambda>f. unat (Num f) + 2 < 2 ^ 64) (stor_getFiles two_tables_storage TypeAll)
     \<and> list_all (\<lambda>f. Num f < stFileNum s) (stor_getFiles (stor s) TypeAll)"
proof -
  from Recover_session_two_tables obtain s where
    s: "Recover_session two_tables_storage example_options = Ok s" and n: "stFileNum s = 4"
    by (auto split: outcome.splits)
  have sm: "\<forall>f\<in>set (stor_getFiles two_tables_storage TypeAll). unat (Num f) + 2 < 2 ^ 64"
    by (simp add: stor_getFiles_def two_tables_storage_def)
  from Recover_next_file_number [OF s sm] s n sm show ?thesis
    by (auto simp: list_all_iff)
qed

subsection \<open>C3: corrupted journal records at replay\<close>

text \<open>
  The notifications of the reader, step by step, and the inner loop as equations over
  the steps of the reader.
\<close>

lemma drops_Nil [simp]: "drops [] = []" by (simp add: drops_def)

lemma drops_empty_block [simp]: "drops ([] # bs) = drops bs" by (simp add: drops_def unsound_block_def)

lemma drops_Cons:
  "drops ((c # cs) # bs) = (if \<not> c_sound c then ''checksum mismatch'' # drops bs else drops (cs # bs))"
  by (simp add: drops_def unsound_block_def)

lemma jr_Next_drops:
  "jr_Next False bs = (ds, r) \<Longrightarrow>
     (case r of Inl err \<Rightarrow> err = EOF \<and> drops bs = ds | Inr bs1 \<Rightarrow> drops bs = ds @ drops bs1)"
  by (induction "False" bs arbitrary: ds r rule: jr_Next.induct)
     (auto simp: drops_Cons split: if_splits prod.splits sum.splits)

lemma read_rest_drops:
  "read_rest False bs = (ds, r, bs') \<Longrightarrow> drops bs = ds @ drops bs'"
  by (induction "False" bs arbitrary: ds r bs' rule: read_rest.induct)
     (auto simp: drops_Cons split: if_splits prod.splits sum.splits)

lemma buf_ReadFrom_drops:
  "c_sound c \<Longrightarrow> buf_ReadFrom False ((c # cs) # bs) = (ds, r, bs') \<Longrightarrow>
     drops ((c # cs) # bs) = ds @ drops bs'"
  by (auto simp: drops_Cons split: if_splits prod.splits sum.splits dest: read_rest_drops)

lemma jr_Next_sound_start:
  "jr_Next strict bs = (ds, Inr bs1) \<Longrightarrow>
     \<exists>c cs bs'. bs1 = (c # cs) # bs' \<and> c_sound c \<and> starts_record c"
  by (induction strict bs arbitrary: ds rule: jr_Next.induct)
     (auto split: if_splits prod.splits)

lemma reader_drops:
  assumes "jr_Next False bs = (ds, Inr bs1)" and "buf_ReadFrom False bs1 = (ds', r, bs2)"
  shows "drops bs = ds @ ds' @ drops bs2"
proof -
  from jr_Next_sound_start [OF assms(1)] obtain c cs bs' where
    b: "bs1 = (c # cs) # bs'" and s: "c_sound c" by auto
  from jr_Next_drops [OF assms(1)] have "drops bs = ds @ drops bs1" by simp
  moreover from buf_ReadFrom_drops [OF s] assms(2) b have "drops bs1 = ds' @ drops bs2" by simp
  ultimately show ?thesis by simp
qed

lemma drop_to_Nil [simp]: "drop_to f [] d = d" by (simp add: drop_to_def)

lemma drop_to_drop_to [simp]: "drop_to f ds (drop_to f ds' d) = drop_to f (ds' @ ds) d"
  by (simp add: drop_to_def)

lemma report_Nil [simp]: "report f [] st = st" by (simp add: report_def split: prod.splits)

lemma report_report [simp]: "report f ds (report f ds' st) = report f (ds' @ ds) st"
  by (simp add: report_def split: prod.splits)

lemma cm_flush_dropped:
  "cm_flush (s\<lparr>dropped := x\<rparr>) r m l = map_sum (\<lambda>e. e) (\<lambda>(s', r'). (s'\<lparr>dropped := x\<rparr>, r')) (cm_flush s r m l)"
  by (simp add: cm_flush_def allocFileNum_def Let_def split: option.splits)

lemma cm_flush_keeps_dropped:
  "cm_flush s r m l = Inr (s', r') \<Longrightarrow> dropped s' = dropped s"
  by (auto simp: cm_flush_def allocFileNum_def Let_def split: option.splits)

lemma rec_step_report:
  "rec_step wb data (report f ds st) = map_sum (\<lambda>e. e) (report f ds) (rec_step wb data st)"
  by (auto simp: rec_step_def report_def drop_to_def Let_def cm_flush_dropped
           split: prod.splits sum.splits dest: cm_flush_keeps_dropped)

lemma apply_records_report:
  "apply_records wb xs (report f ds st) = map_sum (\<lambda>e. e) (report f ds) (apply_records wb xs st)"
proof (induction xs arbitrary: st)
  case Nil
  show ?case by simp
next
  case (Cons x xs)
  show ?case
    by (cases "rec_step wb x st") (simp_all add: rec_step_report Cons)
qed

lemma replay_records_EOF:
  "jr_Next strict bs = (ds, Inl EOF) \<Longrightarrow>
     replay_records strict wb f bs st = Inr (report f ds st)"
  by (cases st) (simp add: replay_records.simps report_def)

lemma replay_records_unreadable:
  "jr_Next strict bs = (ds, Inr bs1) \<Longrightarrow> buf_ReadFrom strict bs1 = (ds', Inl err, bs2) \<Longrightarrow>
     replay_records strict wb f bs st =
       (if strict then Inl err else replay_records strict wb f bs2 (report f (ds @ ds') st))"
  by (cases st) (simp add: replay_records.simps report_def)

lemma replay_records_record:
  "jr_Next strict bs = (ds, Inr bs1) \<Longrightarrow> buf_ReadFrom strict bs1 = (ds', Inr data, bs2) \<Longrightarrow>
     replay_records strict wb f bs st =
       (case rec_step wb data (report f (ds @ ds') st) of
          Inl err \<Rightarrow> Inl err
        | Inr st' \<Rightarrow> replay_records strict wb f bs2 st')"
  by (cases st)
     (auto simp: replay_records.simps report_def rec_step_def drop_to_def Let_def
           split: sum.splits prod.splits)

lemma survivors_EOF: "jr_Next False bs = (ds, Inl err) \<Longrightarrow> survivors bs = []"
  by (simp add: survivors.simps)

lemma survivors_unreadable:
  "jr_Next False bs = (ds, Inr bs1) \<Longrightarrow> buf_ReadFrom False bs1 = (ds', Inl err, bs2) \<Longrightarrow>
     survivors bs = survivors bs2"
  by (simp add: survivors.simps)

lemma survivors_record:
  "jr_Next False bs = (ds, Inr bs1) \<Longrightarrow> buf_ReadFrom False bs1 = (ds', Inr data, bs2) \<Longrightarrow>
     survivors bs = data # survivors bs2"
  by (simp add: survivors.simps)

lemma map_sum_report:
  "map_sum (\<lambda>e. e) (report f ds) (map_sum (\<lambda>e. e) (report f ds') x) = map_sum (\<lambda>e. e) (report f (ds' @ ds)) x"
  by (cases x) simp_all

lemma replay_records_survivors:
  "replay_records False wb f bs st =
     map_sum (\<lambda>e. e) (report f (drops bs)) (apply_records wb (survivors bs) st)"
proof (induction bs arbitrary: st rule: measure_induct_rule [where f = unread])
  case (less bs)
  obtain ds nx where n: "jr_Next False bs = (ds, nx)" by (cases "jr_Next False bs")
  show ?case
  proof (cases nx)
    case (Inl err)
    with jr_Next_drops [OF n] have e: "err = EOF" and d: "drops bs = ds" by simp_all
    from n Inl e show ?thesis
      by (simp add: replay_records_EOF survivors_EOF d)
  next
    case (Inr bs1)
    note n1 = n [unfolded Inr]
    obtain ds' rd bs2 where b: "buf_ReadFrom False bs1 = (ds', rd, bs2)"
      by (cases "buf_ReadFrom False bs1")
    from reader_drops [OF n1 b] have d: "drops bs = ds @ ds' @ drops bs2" .
    from reader_advances [of ds bs1 False bs ds' rd bs2] n1 b
    have lt: "unread bs2 < unread bs" by simp
    show ?thesis
    proof (cases rd)
      case (Inl err)
      note b1 = b [unfolded Inl]
      show ?thesis
        by (simp add: replay_records_unreadable [OF n1 b1] survivors_unreadable [OF n1 b1]
            less.IH [OF lt] apply_records_report map_sum_report d)
    next
      case (Inr data)
      note b1 = b [unfolded Inr]
      show ?thesis
      proof (cases "rec_step wb data st")
        case (Inl err)
        then show ?thesis
          by (simp add: replay_records_record [OF n1 b1] survivors_record [OF n1 b1]
              rec_step_report)
      next
        case (Inr st')
        then show ?thesis
          by (simp add: replay_records_record [OF n1 b1] survivors_record [OF n1 b1]
              rec_step_report less.IH [OF lt] apply_records_report map_sum_report d)
      qed
    qed
  qed
qed

text \<open>The loop body on bytes that decode is the replay of the batch.\<close>

lemma replay_ops_foldl:
  "BadOp \<notin> set ops \<Longrightarrow>
     replay_ops ucmp (base + of_nat n) ops m = Inr (foldl (put_op ucmp base) m (enumerate n ops))"
proof (induction ops arbitrary: n m)
  case Nil
  show ?case by simp
next
  case (Cons op ops)
  then obtain t k v where op: "op = Op t k v" by (cases op) auto
  from Cons.prems have "BadOp \<notin> set ops" by simp
  from Cons.IH [OF this, of "Suc n"] show ?case
    by (simp add: op put_op_def ac_simps)
qed

lemma memReplay_put_all:
  "BadOp \<notin> set (b_ops b) \<Longrightarrow> memReplay ucmp b m = Inr (put_all ucmp b m)"
  using replay_ops_foldl [of "b_ops b" ucmp "b_seq b" 0 m]
  by (simp add: memReplay_def put_all_def)

lemma rec_step_whole_batch:
  "whole_batch data = Some b \<Longrightarrow> rec_step wb data st = replay_batch wb b st"
  by (auto simp: whole_batch_def rec_step_def replay_batch_def memReplay_put_all batch_len_def
           Let_def split: sum.splits if_splits prod.splits)

lemma apply_records_batches:
  "map whole_batch xs = map Some bts \<Longrightarrow> apply_records wb xs st = replay_batches wb bts st"
proof (induction xs arbitrary: bts st)
  case Nil
  then show ?case by simp
next
  case (Cons x xs)
  then obtain b bts' where bts: "bts = b # bts'" and b: "whole_batch x = Some b"
    and r: "map whole_batch xs = map Some bts'" by (cases bts) auto
  show ?case
    by (cases "replay_batch wb b st") (simp_all add: bts rec_step_whole_batch [OF b] Cons.IH [OF r])
qed

text \<open>
  The surviving records, fragment by fragment: a record in a \<open>Full\<close> fragment survives;
  at a fragment whose checksum does not match the rest of the block is lost and the
  reading goes on with the next block; a fragment that continues a lost record is
  skipped.
\<close>

lemma survivors_Nil [simp]: "survivors [] = []"
  by (simp add: survivors.simps)

lemma survivors_empty_block [simp]: "survivors ([] # bs) = survivors bs"
  by (simp add: survivors.simps [of "[] # bs"] survivors.simps [of bs])

lemma survivors_Full:
  "c_sound c \<Longrightarrow> c_type c = FullChunk \<Longrightarrow>
     survivors ((c # cs) # bs) = c_data c # survivors (cs # bs)"
  by (simp add: survivors.simps [of "(c # cs) # bs"] starts_record_def)

lemma survivors_unsound:
  "\<not> c_sound c \<Longrightarrow> survivors ((c # cs) # bs) = survivors bs"
  by (simp add: survivors.simps [of "(c # cs) # bs"] survivors.simps [of bs]
      split: prod.splits sum.splits)

lemma survivors_orphan:
  "c_sound c \<Longrightarrow> \<not> starts_record c \<Longrightarrow> survivors ((c # cs) # bs) = survivors (cs # bs)"
  by (simp add: survivors.simps [of "(c # cs) # bs"] survivors.simps [of "cs # bs"])

lemma survivors_whole_blocks: "survivors (map whole_block xs) = xs"
  by (induction xs) (simp_all add: survivors_Full whole_block_def)

lemma drops_whole_blocks: "drops (map whole_block xs) = []"
  by (simp add: drops_def unsound_block_def whole_block_def filter_empty_conv)

lemma survivors_clean_blocks: "survivors (clean_blocks bs) = survivors bs"
  by (simp add: clean_blocks_def survivors_whole_blocks)

lemma drops_clean_blocks: "drops (clean_blocks bs) = []"
  by (simp add: clean_blocks_def drops_whole_blocks)

lemma clean_blocks_Nil [simp]: "clean_blocks [] = []"
  by (simp add: clean_blocks_def)

text \<open>Every step of the recovery commutes with the cleaning of the storage.\<close>

lemma clean_storage_simps [simp]:
  "s_fault (clean_storage p) = s_fault p"
  "current (clean_storage p) = current p"
  "clean_storage (p\<lparr>current := c\<rparr>) = (clean_storage p)\<lparr>current := c\<rparr>"
  by (simp_all add: clean_storage_def)

lemma map_of_clean_storage:
  "map_of (files (clean_storage p)) f = map_option clean_body (map_of (files p) f)"
  by (simp add: clean_storage_def map_of_map)

lemma getFiles_clean_storage [simp]:
  "stor_getFiles (clean_storage p) sel = stor_getFiles p sel"
  by (simp add: stor_getFiles_def clean_storage_def comp_def case_prod_beta split: TypeSel.splits)

lemma file_Create_clean:
  "clean_body b = b \<Longrightarrow> file_Create (clean_storage p) f b = clean_storage (file_Create p f b)"
  by (simp add: file_Create_def clean_storage_def filter_map comp_def case_prod_unfold)

lemma file_Remove_clean:
  "file_Remove (clean_storage p) f = clean_storage (file_Remove p f)"
  by (simp add: file_Remove_def clean_storage_def filter_map comp_def case_prod_unfold)

lemma file_Open_clean:
  "file_Open (clean_storage p) f = map_sum id clean_blocks (file_Open p f)"
  by (simp add: file_Open_def map_of_clean_storage clean_body_def clean_blocks_Nil
      split: option.splits fileBody.splits)

lemma clean_body_simps [simp]:
  "clean_body (TableBody td) = TableBody td"
  "clean_body (ManifestBody m) = ManifestBody m"
  "clean_body (JournalBody e []) = JournalBody e []"
  by (simp_all add: clean_body_def)

lemma clean_session_simps [simp]:
  "s_o (clean_session s) = s_o s"
  "cmp (clean_session s) = cmp s"
  "stFileNum (clean_session s) = stFileNum s"
  "stJournalNum (clean_session s) = stJournalNum s"
  "stPrevJournalNum (clean_session s) = stPrevJournalNum s"
  "stSeq (clean_session s) = stSeq s"
  "s_version (clean_session s) = s_version s"
  "manifest (clean_session s) = manifest s"
  "stor (clean_session s) = clean_storage (stor s)"
  by (simp_all add: clean_session_def)

lemma clean_db_simps [simp]:
  "d_seq (clean_db d) = d_seq d"
  "d_s (clean_db d) = clean_session (d_s d)"
  "d_mem (clean_db d) = d_mem d"
  "d_journalFile (clean_db d) = d_journalFile d"
  by (simp_all add: clean_db_def)

lemma allocFileNum_clean:
  "allocFileNum (clean_session s) = (fst (allocFileNum s), clean_session (snd (allocFileNum s)))"
  by (simp add: allocFileNum_def clean_session_def)

lemma markFileNum_clean:
  "markFileNum (clean_session s) n = clean_session (markFileNum s n)"
  by (simp add: markFileNum_def clean_session_def)

lemma foldl_markFileNum_clean:
  "foldl markFileNum (clean_session s) ns = clean_session (foldl markFileNum s ns)"
  by (induction ns arbitrary: s) (simp_all add: markFileNum_clean)

lemma snapshotRecord_clean [simp]: "snapshotRecord (clean_session s) = snapshotRecord s"
  by (simp add: snapshotRecord_def)

lemma recordCommited_clean:
  "recordCommited (clean_session s) r = clean_session (recordCommited s r)"
  by (simp add: recordCommited_def clean_session_def split: option.splits)

lemma cm_flush_clean:
  "cm_flush (clean_session s) r m l
     = map_sum id (\<lambda>(s', r'). (clean_session s', r')) (cm_flush s r m l)"
  by (simp add: cm_flush_def allocFileNum_def Let_def clean_session_def file_Create_clean
      split: option.splits)

lemma newManifest_clean:
  "newManifest (clean_session s) = map_sum id clean_session (newManifest s)"
  by (simp add: newManifest_def allocFileNum_def Let_def clean_session_def file_Create_clean
      snapshotRecord_def split: option.splits)

lemma flushManifest_clean:
  "flushManifest (clean_session s) r = map_sum id clean_session (flushManifest s r)"
  by (auto simp: flushManifest_def Let_def clean_session_def file_Create_clean
      map_of_clean_storage clean_body_def split: option.splits fileBody.splits)

lemma session_commit_clean:
  "session_commit (clean_session s) r = map_sum id clean_session (session_commit s r)"
  by (simp add: session_commit_def newManifest_clean flushManifest_clean recordCommited_clean
      split: option.splits sum.splits)

lemma cm_commit_clean:
  "cm_commit (clean_session s) r j sq = map_sum id clean_session (cm_commit s r j sq)"
  by (simp add: cm_commit_def session_commit_clean)

lemma flush_if_any_clean:
  "flush_if_any (clean_session s) r m
     = map_sum id (\<lambda>(s', r'). (clean_session s', r')) (flush_if_any s r m)"
  by (simp add: flush_if_any_def cm_flush_clean split: option.splits)

lemma remove_of_clean:
  "remove_of (clean_session s) f = clean_session (remove_of s f)"
  by (simp add: remove_of_def clean_session_def file_Remove_clean split: option.splits)

lemma newMem_clean:
  "newMem (clean_db d) = map_sum id clean_db (newMem d)"
  by (auto simp: newMem_def allocFileNum_def Let_def clean_db_def clean_session_def
      file_Create_clean split: option.splits)

lemma recoverable_journals_clean [simp]:
  "recoverable_journals (clean_session s) = recoverable_journals s"
  by (simp add: recoverable_journals_def s_getFiles_def)

lemma rec_step_clean:
  "rec_step wb data (clean_db d, mem, r)
     = map_sum id (\<lambda>(d', m', r'). (clean_db d', m', r')) (rec_step wb data (d, mem, r))"
  by (auto simp: rec_step_def Let_def cm_flush_clean clean_db_def split: sum.splits)

lemma apply_records_clean:
  "apply_records wb xs (clean_db d, mem, r)
     = map_sum id (\<lambda>(d', m', r'). (clean_db d', m', r')) (apply_records wb xs (d, mem, r))"
proof (induction xs arbitrary: d mem r)
  case Nil
  show ?case by simp
next
  case (Cons x xs)
  show ?case
  proof (cases "rec_step wb x (d, mem, r)")
    case (Inl e)
    then show ?thesis by (simp add: rec_step_clean)
  next
    case (Inr st')
    obtain d' m' r' where st': "st' = (d', m', r')" by (cases st') auto
    with Inr Cons [of d' m' r'] show ?thesis by (simp add: rec_step_clean)
  qed
qed

lemma clean_db_drop_to [simp]: "clean_db (drop_to f ds d) = clean_db d"
  by (simp add: clean_db_def drop_to_def clean_session_def)

lemma replay_records_clean:
  "replay_records False wb f (clean_blocks bs) (clean_db d, mem, r)
     = map_sum id (\<lambda>(d', m', r'). (clean_db d', m', r')) (replay_records False wb f bs (d, mem, r))"
proof -
  have "replay_records False wb f (clean_blocks bs) (clean_db d, mem, r)
          = apply_records wb (survivors bs) (clean_db d, mem, r)"
    by (cases "apply_records wb (survivors bs) (clean_db d, mem, r)")
       (simp_all add: replay_records_survivors survivors_clean_blocks drops_clean_blocks)
  also have "\<dots> = map_sum id (\<lambda>(d', m', r'). (clean_db d', m', r'))
                     (apply_records wb (survivors bs) (d, mem, r))"
    by (rule apply_records_clean)
  also have "\<dots> = map_sum id (\<lambda>(d', m', r'). (clean_db d', m', r'))
                     (replay_records False wb f bs (d, mem, r))"
    by (cases "apply_records wb (survivors bs) (d, mem, r)")
       (auto simp: replay_records_survivors report_def)
  finally show ?thesis .
qed

lemma clean_rj_simps [simp]:
  "rj_d (clean_rj st) = clean_db (rj_d st)"
  "rj_mem (clean_rj st) = rj_mem st"
  "rj_of (clean_rj st) = rj_of st"
  "rj_cm (clean_rj st) = rj_cm st"
  by (simp_all add: clean_rj_def)

lemma finish_previous_clean:
  "finish_previous file (clean_rj st) = map_sum id clean_rj (finish_previous file st)"
  by (auto simp: finish_previous_def flush_if_any_clean cm_commit_clean remove_of_clean
      clean_rj_def clean_db_def split: option.splits sum.splits)

lemma replay_files_clean:
  "replay_files False wb fs (clean_rj st) = map_sum id clean_rj (replay_files False wb fs st)"
proof (induction fs arbitrary: st)
  case Nil
  then show ?case by simp
next
  case (Cons jf fs)
  show ?case
  proof (cases "file_Open (stor (d_s (rj_d st))) jf")
    case (Inl e)
    then show ?thesis by (simp add: file_Open_clean)
  next
    case items: (Inr items)
    show ?thesis
    proof (cases "finish_previous jf st")
      case (Inl e)
      with items show ?thesis by (simp add: file_Open_clean finish_previous_clean)
    next
      case fin: (Inr st1)
      show ?thesis
      proof (cases "replay_records False wb jf items (rj_d st1, [], rj_cm st1)")
        case (Inl e)
        with items fin replay_records_clean [of wb jf items "rj_d st1" "[]" "rj_cm st1"]
        show ?thesis by (simp add: file_Open_clean finish_previous_clean)
      next
        case (Inr res)
        obtain d' m' r' where res: "res = (d', m', r')" by (cases res) auto
        have e: "clean_rj \<lparr>rj_d = d', rj_mem = Some m', rj_of = Some jf, rj_cm = r'\<rparr>
                 = \<lparr>rj_d = clean_db d', rj_mem = Some m', rj_of = Some jf, rj_cm = r'\<rparr>"
          by (simp add: clean_rj_def)
        have "replay_files False wb fs
                \<lparr>rj_d = clean_db d', rj_mem = Some m', rj_of = Some jf, rj_cm = r'\<rparr>
              = map_sum id clean_rj
                  (replay_files False wb fs
                     \<lparr>rj_d = d', rj_mem = Some m', rj_of = Some jf, rj_cm = r'\<rparr>)"
          using Cons.IH [of "\<lparr>rj_d = d', rj_mem = Some m', rj_of = Some jf, rj_cm = r'\<rparr>"]
          unfolding e .
        with items fin Inr res replay_records_clean [of wb jf items "rj_d st1" "[]" "rj_cm st1"]
        show ?thesis by (simp add: file_Open_clean finish_previous_clean id_def)
      qed
    qed
  qed
qed

lemma clean_db_d_s_update [simp]:
  "(clean_db d)\<lparr>d_s := y\<rparr> = d\<lparr>d_s := y\<rparr>"
  "clean_db (d\<lparr>d_s := x\<rparr>) = d\<lparr>d_s := clean_session x\<rparr>"
  by (simp_all add: clean_db_def)

lemma foldl_markFileNum_s_o: "s_o (foldl markFileNum s ns) = s_o s"
  by (induction ns arbitrary: s) (simp_all add: markFileNum_def)

lemma recoverJournal_clean:
  assumes "\<not> HasFlag (s_o (d_s d)) OFStrict"
  shows "recoverJournal (clean_db d) = map_sum id clean_db (recoverJournal d)"
proof -
  let ?s' = "foldl markFileNum (d_s d) (map Num (recoverable_journals (d_s d)))"
  let ?st = "\<lparr>rj_d = d\<lparr>d_s := ?s'\<rparr>, rj_mem = None, rj_of = None, rj_cm = emptyRecord\<rparr>"
  let ?wb = "GetWriteBuffer (s_o (d_s d))"
  have st: "\<lparr>rj_d = d\<lparr>d_s := clean_session ?s'\<rparr>, rj_mem = None, rj_of = None,
             rj_cm = emptyRecord\<rparr> = clean_rj ?st"
    by (simp add: clean_rj_def)
  have l: "recoverJournal (clean_db d) =
        (case replay_files False ?wb (recoverable_journals (d_s d)) (clean_rj ?st) of
           Inl err \<Rightarrow> Inl err
         | Inr st \<Rightarrow>
             (case newMem (rj_d st) of
                Inl err \<Rightarrow> Inl err
              | Inr d1 \<Rightarrow>
                  (case flush_if_any (d_s d1) (rj_cm st) (rj_mem st) of
                     Inl err \<Rightarrow> Inl err
                   | Inr (s1, r1) \<Rightarrow>
                       (case cm_commit s1 r1
                               (case d_journalFile d1 of Some f \<Rightarrow> Num f | None \<Rightarrow> 0)
                               (d_seq d1) of
                          Inl err \<Rightarrow> Inl err
                        | Inr s2 \<Rightarrow> Inr (d1\<lparr>d_s := remove_of s2 (rj_of st)\<rparr>)))))"
    using assms
    by (simp add: recoverJournal_def Let_def foldl_markFileNum_clean foldl_markFileNum_s_o st)
  have r: "recoverJournal d =
        (case replay_files False ?wb (recoverable_journals (d_s d)) ?st of
           Inl err \<Rightarrow> Inl err
         | Inr st \<Rightarrow>
             (case newMem (rj_d st) of
                Inl err \<Rightarrow> Inl err
              | Inr d1 \<Rightarrow>
                  (case flush_if_any (d_s d1) (rj_cm st) (rj_mem st) of
                     Inl err \<Rightarrow> Inl err
                   | Inr (s1, r1) \<Rightarrow>
                       (case cm_commit s1 r1
                               (case d_journalFile d1 of Some f \<Rightarrow> Num f | None \<Rightarrow> 0)
                               (d_seq d1) of
                          Inl err \<Rightarrow> Inl err
                        | Inr s2 \<Rightarrow> Inr (d1\<lparr>d_s := remove_of s2 (rj_of st)\<rparr>)))))"
    using assms
    by (simp add: recoverJournal_def Let_def foldl_markFileNum_s_o)
  show ?thesis
    unfolding l r replay_files_clean
    by (simp add: newMem_clean flush_if_any_clean cm_commit_clean remove_of_clean
        split: sum.splits prod.splits)
qed

text \<open>
  A strict reader ends the loop with an error at the first fragment whose checksum does
  not match, and no step of the recovery changes a journal that is still to be read.
\<close>

lemma corrupted_simps [simp]:
  "corrupted [] = False"
  "corrupted ([] # bs) = corrupted bs"
  "corrupted ((c # cs) # bs) = (\<not> c_sound c \<or> corrupted (cs # bs))"
  by (auto simp: corrupted_def unsound_block_def)

lemma jr_Next_strict:
  "jr_Next True bs = (ds, r) \<Longrightarrow> corrupted bs \<Longrightarrow>
     (case r of Inl err \<Rightarrow> err \<noteq> EOF | Inr bs1 \<Rightarrow> corrupted bs1)"
  by (induction "True" bs arbitrary: ds r rule: jr_Next.induct)
     (auto split: if_splits prod.splits sum.splits)

lemma read_rest_strict:
  "read_rest True bs = (ds, Inr data, bs') \<Longrightarrow> corrupted bs \<Longrightarrow> corrupted bs'"
  by (induction "True" bs arbitrary: ds data bs' rule: read_rest.induct)
     (auto split: if_splits prod.splits sum.splits)

lemma buf_ReadFrom_strict:
  "c_sound c \<Longrightarrow> buf_ReadFrom True ((c # cs) # bs) = (ds, Inr data, bs') \<Longrightarrow>
     corrupted ((c # cs) # bs) \<Longrightarrow> corrupted bs'"
  by (auto split: if_splits prod.splits sum.splits dest: read_rest_strict)

lemma replay_records_strict_corrupt:
  "corrupted bs \<Longrightarrow> isl (replay_records True wb f bs st)"
proof (induction bs arbitrary: st rule: measure_induct_rule [where f = unread])
  case (less bs)
  obtain ds nx where n: "jr_Next True bs = (ds, nx)" by (cases "jr_Next True bs")
  show ?case
  proof (cases nx)
    case (Inl err)
    with jr_Next_strict [OF n less.prems] have "err \<noteq> EOF" by simp
    with n Inl show ?thesis by (cases st) (simp add: replay_records.simps)
  next
    case (Inr bs1)
    note n1 = n [unfolded Inr]
    from jr_Next_strict [OF n less.prems] Inr have c1: "corrupted bs1" by simp
    from jr_Next_sound_start [OF n1] obtain c cs bs' where
      b1: "bs1 = (c # cs) # bs'" and s: "c_sound c" by auto
    obtain ds' rd bs2 where b: "buf_ReadFrom True bs1 = (ds', rd, bs2)"
      by (cases "buf_ReadFrom True bs1")
    show ?thesis
    proof (cases rd)
      case (Inl err)
      from replay_records_unreadable [OF n1 b [unfolded Inl]] show ?thesis by simp
    next
      case (Inr data)
      note b2 = b [unfolded Inr]
      from buf_ReadFrom_strict [OF s] b2 c1 b1 have c2: "corrupted bs2" by simp
      from reader_advances [of ds bs1 True bs ds' rd bs2] n1 b
      have lt: "unread bs2 < unread bs" by simp
      show ?thesis
        by (simp add: replay_records_record [OF n1 b2] less.IH [OF lt c2] split: sum.splits)
    qed
  qed
qed

lemma journals_kept_refl [simp]: "journals_kept p p"
  by (simp add: journals_kept_def)

lemma journals_kept_trans:
  "journals_kept p q \<Longrightarrow> journals_kept q r \<Longrightarrow> journals_kept p r"
  unfolding journals_kept_def by metis

lemma journals_kept_current [simp]:
  "journals_kept p (q\<lparr>current := c\<rparr>) = journals_kept p q"
  by (simp add: journals_kept_def)

lemma map_of_filter_neq:
  "map_of (filter (\<lambda>(h, c). h \<noteq> g) xs) f = (if f = g then None else map_of xs f)"
  by (induction xs) auto

lemma journals_kept_file_Create:
  "Type g \<noteq> TypeJournal \<Longrightarrow> journals_kept p (file_Create p g b)"
  by (auto simp: journals_kept_def file_Create_def map_of_append map_of_filter_neq
      map_add_def split: option.splits)

lemma journals_kept_file_Remove: "journals_kept p (file_Remove p g)"
  by (auto simp: journals_kept_def file_Remove_def map_of_filter_neq)

lemma cm_flush_kept:
  assumes "cm_flush s r m l = Inr (s', r')"
  shows "journals_kept (stor s) (stor s')" and "manifest s' = manifest s"
  using assms journals_kept_file_Create [of "\<lparr>Num = stFileNum s, Type = TypeTable\<rparr>" "stor s"]
  by (auto simp: cm_flush_def allocFileNum_def Let_def split: option.splits)

lemma flush_if_any_kept:
  assumes "flush_if_any s r m = Inr (s', r')"
  shows "journals_kept (stor s) (stor s')" and "manifest s' = manifest s"
  using assms cm_flush_kept [of s r _ 0 s' r']
  by (auto simp: flush_if_any_def split: option.splits if_splits)

lemma newManifest_kept:
  assumes "newManifest s = Inr s'"
  shows "journals_kept (stor s) (stor s')"
  using assms journals_kept_file_Create [of "\<lparr>Num = stFileNum s, Type = TypeManifest\<rparr>" "stor s"]
  by (auto simp: newManifest_def allocFileNum_def Let_def split: option.splits)

lemma session_commit_kept:
  assumes "session_commit s r = Inr s'"
  shows "journals_kept (stor s) (stor s')"
proof (cases "manifest s")
  case None
  with assms have "newManifest (recordCommited s r) = Inr s'"
    by (auto simp: session_commit_def split: sum.splits)
  from newManifest_kept [OF this] show ?thesis by (simp add: recordCommited_def)
next
  case (Some n)
  with assms obtain s1 where f: "flushManifest s r = Inr s1" and e: "s' = recordCommited s1 r"
    by (auto simp: session_commit_def split: sum.splits)
  from flushManifest_Inr [OF f Some] obtain b where
    "s1 = s\<lparr>stor := file_Create (stor s) \<lparr>Num = n, Type = TypeManifest\<rparr> b\<rparr>" by blast
  with e journals_kept_file_Create [of "\<lparr>Num = n, Type = TypeManifest\<rparr>" "stor s" b]
  show ?thesis by (simp add: recordCommited_def)
qed

lemma remove_of_kept: "journals_kept (stor s) (stor (remove_of s f))"
  by (simp add: remove_of_def journals_kept_file_Remove split: option.splits)

lemma finish_previous_kept:
  assumes "finish_previous jf st = Inr st1"
  shows "journals_kept (stor (d_s (rj_d st))) (stor (d_s (rj_d st1)))"
proof (cases "rj_mem st")
  case None
  with assms show ?thesis by (simp add: finish_previous_def)
next
  case (Some m)
  with assms obtain s1 r1 s2 where
    a: "flush_if_any (d_s (rj_d st)) (rj_cm st) (Some m) = Inr (s1, r1)" and
    b: "cm_commit s1 r1 (Num jf) (d_seq (rj_d st)) = Inr s2" and
    c: "st1 = st\<lparr>rj_d := (rj_d st)\<lparr>d_s := remove_of s2 (rj_of st)\<rparr>,
                  rj_cm := emptyRecord, rj_of := None\<rparr>"
    by (auto simp: finish_previous_def split: sum.splits)
  from b have "journals_kept (stor s1) (stor s2)"
    by (simp add: cm_commit_def session_commit_kept)
  with flush_if_any_kept(1) [OF a] remove_of_kept [of s2 "rj_of st"]
  have "journals_kept (stor (d_s (rj_d st))) (stor (remove_of s2 (rj_of st)))"
    by (blast intro: journals_kept_trans)
  then show ?thesis by (simp add: c)
qed

lemma rec_step_kept:
  assumes "rec_step wb data (d, m, r) = Inr (d', m', r')"
  shows "journals_kept (stor (d_s d)) (stor (d_s d'))"
  using assms cm_flush_kept(1)
  by (fastforce simp: rec_step_def Let_def split: sum.splits if_splits)

lemma stor_drop_to [simp]: "stor (d_s (drop_to f ds d)) = stor (d_s d)"
  by (simp add: drop_to_def)

lemma replay_records_kept:
  "replay_records strict wb f bs (d, m, r) = Inr (d', m', r')
     \<Longrightarrow> journals_kept (stor (d_s d)) (stor (d_s d'))"
proof (induction bs arbitrary: d m r rule: measure_induct_rule [where f = unread])
  case (less bs)
  obtain ds nx where n: "jr_Next strict bs = (ds, nx)" by (cases "jr_Next strict bs")
  show ?case
  proof (cases nx)
    case (Inl err)
    with n less.prems show ?thesis
      by (auto simp: replay_records.simps split: if_splits)
  next
    case (Inr bs1)
    note n1 = n [unfolded Inr]
    obtain ds' rd bs2 where b: "buf_ReadFrom strict bs1 = (ds', rd, bs2)"
      by (cases "buf_ReadFrom strict bs1")
    from reader_advances [of ds bs1 strict bs ds' rd bs2] n1 b
    have lt: "unread bs2 < unread bs" by simp
    show ?thesis
    proof (cases rd)
      case (Inl err)
      from less.prems replay_records_unreadable [OF n1 b [unfolded Inl], of wb f "(d, m, r)"]
      have "replay_records strict wb f bs2 (drop_to f (ds @ ds') d, m, r) = Inr (d', m', r')"
        by (simp add: report_def split: if_splits)
      from less.IH [OF lt this] show ?thesis by simp
    next
      case (Inr data)
      from less.prems replay_records_record [OF n1 b [unfolded Inr], of wb f "(d, m, r)"]
      obtain d1 m1 r1 where
        a: "rec_step wb data (drop_to f (ds @ ds') d, m, r) = Inr (d1, m1, r1)" and
        c: "replay_records strict wb f bs2 (d1, m1, r1) = Inr (d', m', r')"
        by (auto simp: report_def split: sum.splits)
      from rec_step_kept [OF a] less.IH [OF lt c] show ?thesis
        by (auto intro: journals_kept_trans)
    qed
  qed
qed

lemma file_Open_kept:
  assumes "journals_kept p0 p" and "Type g = TypeJournal" and "file_Open p g = Inr bs"
  shows "bs = journal_blocks p0 g"
proof -
  from assms(3) have "map_of (files p) g \<noteq> None"
    by (auto simp: file_Open_def split: option.splits)
  with assms(1,2) have "map_of (files p) g = map_of (files p0) g"
    by (auto simp: journals_kept_def)
  with assms(3) show ?thesis
    by (auto simp: file_Open_def journal_blocks_def split: option.splits fileBody.splits)
qed

lemma replay_files_strict_corrupt:
  assumes "jf \<in> set fs" and "Type jf = TypeJournal"
    and "corrupted (journal_blocks p0 jf)"
    and "journals_kept p0 (stor (d_s (rj_d st)))"
  shows "isl (replay_files True wb fs st)"
  using assms(1,4)
proof (induction fs arbitrary: st)
  case Nil
  then show ?case by simp
next
  case (Cons g fs)
  show ?case
  proof (cases "file_Open (stor (d_s (rj_d st))) g")
    case (Inl e)
    then show ?thesis by simp
  next
    case op: (Inr its)
    show ?thesis
    proof (cases "finish_previous g st")
      case (Inl e)
      with op show ?thesis by simp
    next
      case fin: (Inr st1)
      show ?thesis
      proof (cases "replay_records True wb g its (rj_d st1, [], rj_cm st1)")
        case (Inl e)
        with op fin show ?thesis by simp
      next
        case (Inr res)
        obtain d' m' r' where res: "res = (d', m', r')" by (cases res) auto
        have ne: "g \<noteq> jf"
        proof
          assume "g = jf"
          with file_Open_kept [OF Cons.prems(2) _ op] assms(2)
          have "its = journal_blocks p0 jf" by simp
          with replay_records_strict_corrupt [of its wb g "(rj_d st1, [], rj_cm st1)"] assms(3) Inr
          show False by simp
        qed
        with Cons.prems(1) have mem: "jf \<in> set fs" by auto
        from finish_previous_kept [OF fin]
             replay_records_kept [of True wb g its "rj_d st1" "[]" "rj_cm st1" d' m' r']
             Inr res Cons.prems(2)
        have "journals_kept p0 (stor (d_s d'))" by (blast intro: journals_kept_trans)
        then have "isl (replay_files True wb fs
                      \<lparr>rj_d = d', rj_mem = Some m', rj_of = Some g, rj_cm = r'\<rparr>)"
          using Cons.IH [OF mem] by simp
        with op fin Inr res show ?thesis by simp
      qed
    qed
  qed
qed

lemma foldl_markFileNum_stor: "stor (foldl markFileNum s ns) = stor s"
  by (induction ns arbitrary: s) (simp_all add: markFileNum_def)

lemma recoverable_journals_Type: "jf \<in> set (recoverable_journals s) \<Longrightarrow> Type jf = TypeJournal"
  by (auto simp: recoverable_journals_def s_getFiles_def stor_getFiles_def files_sort_def)

lemma recoverJournal_strict_corrupt:
  assumes "HasFlag (s_o (d_s d)) OFStrict"
    and "jf \<in> set (recoverable_journals (d_s d))"
    and "corrupted (journal_blocks (stor (d_s d)) jf)"
  shows "isl (recoverJournal d)"
proof -
  let ?s' = "foldl markFileNum (d_s d) (map Num (recoverable_journals (d_s d)))"
  let ?st = "\<lparr>rj_d = d\<lparr>d_s := ?s'\<rparr>, rj_mem = None, rj_of = None, rj_cm = emptyRecord\<rparr>"
  have "journals_kept (stor (d_s d)) (stor (d_s (rj_d ?st)))"
    by (simp add: foldl_markFileNum_stor)
  from replay_files_strict_corrupt [OF assms(2) recoverable_journals_Type [OF assms(2)] assms(3) this]
  have "isl (replay_files True (GetWriteBuffer (s_o (d_s d))) (recoverable_journals (d_s d)) ?st)" .
  then obtain e where
    "replay_files True (GetWriteBuffer (s_o (d_s d))) (recoverable_journals (d_s d)) ?st = Inl e"
    by (auto simp: isl_def)
  with assms(1) show ?thesis
    by (simp add: recoverJournal_def Let_def foldl_markFileNum_s_o)
qed

text \<open>Only the readers write to the drop sink.\<close>

lemma flush_if_any_dropped:
  "flush_if_any s r m = Inr (s', r') \<Longrightarrow> dropped s' = dropped s"
  by (auto simp: flush_if_any_def split: option.splits if_splits dest: cm_flush_keeps_dropped)

lemma recordCommited_dropped [simp]: "dropped (recordCommited s r) = dropped s"
  by (simp add: recordCommited_def)

lemma newManifest_dropped: "newManifest s = Inr s' \<Longrightarrow> dropped s' = dropped s"
  by (auto simp: newManifest_def allocFileNum_def Let_def split: option.splits)

lemma flushManifest_dropped: "flushManifest s r = Inr s' \<Longrightarrow> dropped s' = dropped s"
  by (auto simp: flushManifest_def Let_def split: option.splits)

lemma session_commit_dropped: "session_commit s r = Inr s' \<Longrightarrow> dropped s' = dropped s"
  by (auto simp: session_commit_def split: option.splits sum.splits
           dest: newManifest_dropped flushManifest_dropped)

lemma cm_commit_dropped: "cm_commit s r j sq = Inr s' \<Longrightarrow> dropped s' = dropped s"
  by (auto simp: cm_commit_def dest: session_commit_dropped)

lemma remove_of_dropped [simp]: "dropped (remove_of s f) = dropped s"
  by (simp add: remove_of_def split: option.splits)

lemma newMem_dropped: "newMem d = Inr d' \<Longrightarrow> dropped (d_s d') = dropped (d_s d)"
  by (auto simp: newMem_def allocFileNum_def Let_def split: option.splits)

lemma foldl_markFileNum_dropped [simp]: "dropped (foldl markFileNum s ns) = dropped s"
  by (induction ns arbitrary: s) (simp_all add: markFileNum_def)

lemma finish_previous_dropped:
  "finish_previous jf st = Inr st1 \<Longrightarrow> dropped (d_s (rj_d st1)) = dropped (d_s (rj_d st))"
  by (auto simp: finish_previous_def split: option.splits sum.splits
           dest!: flush_if_any_dropped cm_commit_dropped)

lemma rec_step_dropped:
  "rec_step wb data (d, m, r) = Inr (d', m', r') \<Longrightarrow> dropped (d_s d') = dropped (d_s d)"
  by (auto simp: rec_step_def Let_def split: sum.splits if_splits dest: cm_flush_keeps_dropped)

lemma apply_records_dropped:
  "apply_records wb xs (d, m, r) = Inr (d', m', r') \<Longrightarrow> dropped (d_s d') = dropped (d_s d)"
proof (induction xs arbitrary: d m r)
  case Nil
  then show ?case by simp
next
  case (Cons x xs)
  then obtain d1 m1 r1 where a: "rec_step wb x (d, m, r) = Inr (d1, m1, r1)"
    and b: "apply_records wb xs (d1, m1, r1) = Inr (d', m', r')"
    by (auto split: sum.splits)
  from rec_step_dropped [OF a] Cons.IH [OF b] show ?case by simp
qed

lemma replay_records_dropped:
  assumes "replay_records False wb f bs (d, m, r) = Inr (d', m', r')"
  shows "dropped (d_s d') = dropped (d_s d) @ map (Pair f) (drops bs)"
proof -
  from assms obtain d1 m1 r1 where
    a: "apply_records wb (survivors bs) (d, m, r) = Inr (d1, m1, r1)" and
    b: "(d', m', r') = report f (drops bs) (d1, m1, r1)"
    by (cases "apply_records wb (survivors bs) (d, m, r)")
       (auto simp: replay_records_survivors)
  from b apply_records_dropped [OF a] show ?thesis
    by (simp add: report_def drop_to_def)
qed

lemma replay_files_dropped:
  assumes "replay_files False wb fs st = Inr st'"
    and "journals_kept p0 (stor (d_s (rj_d st)))"
    and "\<forall>g\<in>set fs. Type g = TypeJournal"
  shows "dropped (d_s (rj_d st')) = dropped (d_s (rj_d st)) @ reported p0 fs"
  using assms
proof (induction fs arbitrary: st)
  case Nil
  then show ?case by (simp add: reported_def)
next
  case (Cons g fs)
  from Cons.prems(1) obtain its st1 d' m' r' where
    op: "file_Open (stor (d_s (rj_d st))) g = Inr its" and
    fin: "finish_previous g st = Inr st1" and
    rr: "replay_records False wb g its (rj_d st1, [], rj_cm st1) = Inr (d', m', r')" and
    rest: "replay_files False wb fs \<lparr>rj_d = d', rj_mem = Some m', rj_of = Some g, rj_cm = r'\<rparr>
             = Inr st'"
    by (auto split: sum.splits)
  from Cons.prems(3) have tg: "Type g = TypeJournal" by simp
  from file_Open_kept [OF Cons.prems(2) tg op] have its: "its = journal_blocks p0 g" .
  from finish_previous_kept [OF fin] replay_records_kept [OF rr] Cons.prems(2)
  have k: "journals_kept p0 (stor (d_s d'))" by (blast intro: journals_kept_trans)
  from Cons.IH [OF rest] k Cons.prems(3)
  have "dropped (d_s (rj_d st')) = dropped (d_s d') @ reported p0 fs" by simp
  with replay_records_dropped [OF rr] finish_previous_dropped [OF fin] its
  show ?case by (simp add: reported_def)
qed

lemma recoverJournal_dropped:
  assumes "\<not> HasFlag (s_o (d_s d)) OFStrict" and "recoverJournal d = Inr d'"
  shows "dropped (d_s d') =
           dropped (d_s d) @ reported (stor (d_s d)) (recoverable_journals (d_s d))"
proof -
  let ?s' = "foldl markFileNum (d_s d) (map Num (recoverable_journals (d_s d)))"
  let ?st = "\<lparr>rj_d = d\<lparr>d_s := ?s'\<rparr>, rj_mem = None, rj_of = None, rj_cm = emptyRecord\<rparr>"
  from assms obtain st d1 s1 r1 s2 where
    rf: "replay_files False (GetWriteBuffer (s_o (d_s d))) (recoverable_journals (d_s d)) ?st
           = Inr st" and
    nm: "newMem (rj_d st) = Inr d1" and
    fl: "flush_if_any (d_s d1) (rj_cm st) (rj_mem st) = Inr (s1, r1)" and
    cm: "cm_commit s1 r1 (case d_journalFile d1 of Some f \<Rightarrow> Num f | None \<Rightarrow> 0) (d_seq d1)
           = Inr s2" and
    d': "d' = d1\<lparr>d_s := remove_of s2 (rj_of st)\<rparr>"
    by (auto simp: recoverJournal_def Let_def foldl_markFileNum_s_o split: sum.splits)
  have k: "journals_kept (stor (d_s d)) (stor (d_s (rj_d ?st)))"
    by (simp add: foldl_markFileNum_stor)
  have ty: "\<forall>g\<in>set (recoverable_journals (d_s d)). Type g = TypeJournal"
    by (simp add: recoverable_journals_Type)
  from replay_files_dropped [OF rf k ty]
  have "dropped (d_s (rj_d st)) =
          dropped (d_s d) @ reported (stor (d_s d)) (recoverable_journals (d_s d))" by simp
  with newMem_dropped [OF nm] flush_if_any_dropped [OF fl] cm_commit_dropped [OF cm] d'
  show ?thesis by simp
qed

text \<open>
  The surviving records of a journal of \<open>Full\<close> fragments, and the replay of batches when
  no table creation fails.
\<close>

lemma survivors_full_block:
  "\<forall>c\<in>set b. c_type c = FullChunk \<Longrightarrow>
     survivors (b # bs) = map c_data (takeWhile c_sound b) @ survivors bs"
proof (induction b)
  case Nil
  show ?case by simp
next
  case (Cons c cs)
  show ?case
  proof (cases "c_sound c")
    case True
    with Cons show ?thesis by (simp add: survivors_Full)
  next
    case False
    then show ?thesis by (simp add: survivors_unsound)
  qed
qed

lemma survivors_full_chunks:
  "\<forall>b\<in>set bs. \<forall>c\<in>set b. c_type c = FullChunk \<Longrightarrow>
     survivors bs = concat (map (\<lambda>b. map c_data (takeWhile c_sound b)) bs)"
  by (induction bs) (simp_all add: survivors_full_block)

lemma cm_flush_total:
  "map_of (s_fault (stor s)) OpCreateTable = None \<Longrightarrow>
     \<exists>s' r'. cm_flush s r m l = Inr (s', r') \<and> s_fault (stor s') = s_fault (stor s)"
  by (simp add: cm_flush_def allocFileNum_def Let_def file_Create_def)

lemma replay_batch_total:
  assumes "map_of (s_fault (stor (d_s d))) OpCreateTable = None"
  shows "\<exists>d' m' r'. replay_batch wb b (d, m, r) = Inr (d', m', r')
           \<and> s_fault (stor (d_s d')) = s_fault (stor (d_s d))"
proof -
  let ?d = "d\<lparr>d_seq := b_seq b + of_nat (length (b_ops b))\<rparr>"
  from cm_flush_total [of "d_s ?d" r "put_all (cmp (d_s d)) b m" 0] assms
  obtain s' r' where "cm_flush (d_s ?d) r (put_all (cmp (d_s d)) b m) 0 = Inr (s', r')"
    and "s_fault (stor s') = s_fault (stor (d_s d))" by auto
  then show ?thesis by (simp add: replay_batch_def Let_def)
qed

lemma replay_batches_total:
  "map_of (s_fault (stor (d_s d))) OpCreateTable = None \<Longrightarrow>
     \<not> isl (replay_batches wb bts (d, m, r))"
proof (induction bts arbitrary: d m r)
  case Nil
  show ?case by simp
next
  case (Cons b bts)
  from replay_batch_total [OF Cons.prems, of wb b m r] obtain d' m' r' where
    a: "replay_batch wb b (d, m, r) = Inr (d', m', r')" and
    f: "s_fault (stor (d_s d')) = s_fault (stor (d_s d))" by blast
  from Cons.IH [of d' m' r'] f Cons.prems a show ?case by simp
qed

lemmas open_defs = Open_def newSession_def session_recover_def replay_edit_def recordCommited_def
      spawn_def delete_tables_def add_table_def table_of_added_def newTFile_def emptyRecord_def
      HasFlag_def openDB_def recoverJournal_def recoverable_journals_def files_sort_def
      s_getFiles_def stor_getFiles_def markFileNum_def GetWriteBuffer_def file_Open_def
      finish_previous_def flush_if_any_def cm_flush_def cm_commit_def session_commit_def
      newManifest_def flushManifest_def snapshotRecord_def allocFileNum_def file_Create_def
      file_Remove_def remove_of_def newMem_def cleanFiles_def memdb_Len_def memdb_Size_def
      replay_records.simps starts_record_def drop_to_def batch_encode_def
      memReplay_def batch_len_def newIKey_def iCompare_def
      tVal_def Let_def addTableFile_def

lemmas get_defs = Get_def get_def ok_def isClosed_def getSeq_def getMem_def memGet_def
      version_get_def level0_candidates_def covers_def tops_get_def parseIkey_def tSeek_def
      tDel_def RHasFlag_def

lemmas journal_defs = journal_storage_def torn_journal_def intact_prefix_def sound_def
      unsound_def put_batch_def example_options_def strict_options_def


text \<open>With the strict flag the same journal makes \<^verbatim>\<open>Open\<close> fail at the first corruption.\<close>

lemma Open_strict_torn_journal:
  "Open (journal_storage torn_journal) strict_options = Inl (ErrCorrupted ''checksum mismatch'')"
  by (simp add: open_defs journal_defs)

text \<open>
  A record that is read whole but does not decode as a batch is another matter: the
  source returns the error of \<^verbatim>\<open>batch.decode\<close> whatever the strict flag says.
\<close>

lemma Open_undecodable_record:
  "Open (journal_storage [[sound FullChunk (batch_encode (put_batch 1 ''a'' ''1'')),
                           sound FullChunk [],
                           sound FullChunk (batch_encode (put_batch 2 ''b'' ''2''))]])
        example_options = Inl (ErrCorrupted ''batch too short'')"
  by (simp add: open_defs journal_defs)



end
